theory Spec2Isabelle
  imports Main "HOL-Library.Word"
begin

section \<open>C integers\<close>

text \<open>
  The library is written in C. Its \<^verbatim>\<open>int\<close> is modelled as a 32-bit word read in two's
  complement: \<open>+\<close> and \<open>-\<close> wrap around, \<open>sint\<close> gives the signed value, and the
  comparisons of the source are the signed ones (\<open><s\<close>, \<open><=s\<close>). C leaves signed
  overflow undefined; the model takes the two's complement result that the usual
  targets produce. A \<^verbatim>\<open>size_t\<close> count is a \<open>nat\<close>; the conversion to \<^verbatim>\<open>int\<close> keeps the
  low 32 bits.

  A pointer is an \<open>option\<close> (\<open>None\<close> is \<^verbatim>\<open>NULL\<close>). Whether \<^verbatim>\<open>malloc\<close> and \<^verbatim>\<open>realloc\<close>
  grant a request is not decided by the program: every function that allocates takes an
  \<open>allocator\<close>, which says for a number of bytes whether a request of that size is
  granted. The same answer is given at every request of that size. The sizes of
  the three structs are those of an LP64 target; only the examples with a refusing
  allocator depend on them. \<^verbatim>\<open>free\<close> is not modelled, so neither are \<^verbatim>\<open>grid_destroy\<close> and
  \<^verbatim>\<open>position_set_destroy\<close>.
\<close>

type_synonym cint = "32 word"

definition c_abs :: "cint \<Rightarrow> cint" where
  "c_abs x = (if x <s 0 then - x else x)"

definition INT_MAX :: int where
  "INT_MAX = 2147483647"

type_synonym allocator = "nat \<Rightarrow> bool"

definition all_granted :: "allocator \<Rightarrow> bool" where
  "all_granted alloc \<longleftrightarrow> (\<forall>n. alloc n)"

definition sizeof_Position :: nat where
  "sizeof_Position = 8"

definition sizeof_PositionSet :: nat where
  "sizeof_PositionSet = 24"

definition sizeof_Grid :: nat where
  "sizeof_Grid = 24"

section \<open>Position (position.c)\<close>

record Position =
  row :: cint
  column :: cint

definition position_create :: "cint \<Rightarrow> cint \<Rightarrow> Position" where
  "position_create r c = \<lparr>row = r, column = c\<rparr>"

definition position_manhattan_distance :: "Position \<Rightarrow> Position \<Rightarrow> cint" where
  "position_manhattan_distance pos1 pos2 =
     (let row_diff = c_abs (row pos1 - row pos2);
          col_diff = c_abs (column pos1 - column pos2)
      in row_diff + col_diff)"

definition position_equals :: "Position \<Rightarrow> Position \<Rightarrow> bool" where
  "position_equals pos1 pos2 \<longleftrightarrow> row pos1 = row pos2 \<and> column pos1 = column pos2"

text \<open>The distance of the specification, on the signed values of the coordinates.\<close>

definition manhattan :: "Position \<Rightarrow> Position \<Rightarrow> int" where
  "manhattan a b = \<bar>sint (row a) - sint (row b)\<bar> + \<bar>sint (column a) - sint (column b)\<bar>"

definition position_hash :: "Position \<Rightarrow> 64 word" where
  "position_hash pos = scast (row pos * 31 + column pos)"

section \<open>Error codes (exceptions.h, exceptions.c)\<close>

datatype ErrorCode =
    ERROR_NONE
  | ERROR_INVALID_GRID_DIMENSIONS
  | ERROR_POSITION_OUT_OF_BOUNDS
  | ERROR_INVALID_DISTANCE_THRESHOLD
  | ERROR_MEMORY_ALLOCATION

fun error_message :: "ErrorCode \<Rightarrow> string" where
  "error_message ERROR_NONE = ''No error''"
| "error_message ERROR_INVALID_GRID_DIMENSIONS =
     ''Invalid grid dimensions: height and width must be greater than 0''"
| "error_message ERROR_POSITION_OUT_OF_BOUNDS =
     ''Position out of bounds: position exceeds grid boundaries''"
| "error_message ERROR_INVALID_DISTANCE_THRESHOLD =
     ''Invalid distance threshold: threshold must be non-negative''"
| "error_message ERROR_MEMORY_ALLOCATION = ''Memory allocation failed''"

section \<open>PositionSet (position_set.c)\<close>

text \<open>
  The set is a growable array scanned linearly. \<open>positions\<close> holds the entries
  \<^verbatim>\<open>positions[0 .. size)\<close> in insertion order, so the \<^verbatim>\<open>size\<close> field of the source is
  the length of that list; the slots between \<^verbatim>\<open>size\<close> and \<^verbatim>\<open>capacity\<close> are never read
  and are not represented. A \<^verbatim>\<open>PositionSet*\<close> is a \<open>PositionSet option\<close>.
\<close>

record PositionSet =
  positions :: "Position list"
  capacity :: nat

definition INITIAL_CAPACITY :: nat where
  "INITIAL_CAPACITY = 16"

definition position_set_create :: "allocator \<Rightarrow> PositionSet option" where
  "position_set_create alloc =
     (if \<not> alloc sizeof_PositionSet then None
      else if \<not> alloc (INITIAL_CAPACITY * sizeof_Position) then None
      else Some \<lparr>positions = [], capacity = INITIAL_CAPACITY\<rparr>)"

text \<open>The scan of \<^verbatim>\<open>position_set_contains\<close> over the entries, first index first.\<close>

fun contains_scan :: "Position list \<Rightarrow> Position \<Rightarrow> bool" where
  "contains_scan [] pos = False"
| "contains_scan (p # ps) pos = (if position_equals p pos then True else contains_scan ps pos)"

definition position_set_contains :: "PositionSet option \<Rightarrow> Position \<Rightarrow> bool" where
  "position_set_contains pset pos =
     (case pset of None \<Rightarrow> False | Some s \<Rightarrow> contains_scan (positions s) pos)"

text \<open>
  \<^verbatim>\<open>position_set_add\<close> returns its boolean and leaves the set updated in place: the
  model returns both. A \<^verbatim>\<open>realloc\<close> that fails leaves the set as it was.
\<close>

definition position_set_add ::
  "allocator \<Rightarrow> PositionSet option \<Rightarrow> Position \<Rightarrow> bool \<times> PositionSet option" where
  "position_set_add alloc pset pos =
     (case pset of
        None \<Rightarrow> (False, None)
      | Some s \<Rightarrow>
          if position_set_contains (Some s) pos then (False, Some s)
          else if length (positions s) \<ge> capacity s then
            (let new_capacity = capacity s * 2
             in if \<not> alloc (new_capacity * sizeof_Position) then (False, Some s)
                else (True, Some (s\<lparr>capacity := new_capacity,
                                     positions := positions s @ [pos]\<rparr>)))
          else (True, Some (s\<lparr>positions := positions s @ [pos]\<rparr>)))"

definition position_set_size :: "PositionSet option \<Rightarrow> nat" where
  "position_set_size pset = (case pset of None \<Rightarrow> 0 | Some s \<Rightarrow> length (positions s))"

definition position_set_clear :: "PositionSet option \<Rightarrow> PositionSet option" where
  "position_set_clear pset =
     (case pset of None \<Rightarrow> None | Some s \<Rightarrow> Some (s\<lparr>positions := []\<rparr>))"

section \<open>Grid (grid.c)\<close>

text \<open>
  The arrays of positions that a grid and its caller point to live in a store: a list of
  blocks, an address being an index into it. \<^verbatim>\<open>malloc\<close> appends a block, so a new address
  differs from every address in use. Reading through \<^verbatim>\<open>NULL\<close>, through an address with no
  block or past the end of a block is the outcome \<open>InvalidRead\<close>. A \<^verbatim>\<open>Grid*\<close> is a
  \<open>Grid option\<close>; the grid itself is never written after construction.
\<close>

type_synonym addr = nat
type_synonym heap = "Position list list"

datatype 'a run = Returns 'a | InvalidRead | NoReturn

record Grid =
  height :: cint
  width :: cint
  positive_cells :: "addr option"
  positive_cell_count :: cint

text \<open>\<^verbatim>\<open>memcpy\<close> of \<open>n\<close> positions out of the block at \<open>src\<close>.\<close>

definition copy_positions :: "heap \<Rightarrow> addr \<Rightarrow> nat \<Rightarrow> Position list option" where
  "copy_positions hp src n =
     (if src < length hp \<and> n \<le> length (hp ! src) then Some (take n (hp ! src)) else None)"

text \<open>
  \<^verbatim>\<open>grid_create\<close> takes the store and returns it with the grid's own block added, or
  as it was when no grid is returned or nothing is copied.
\<close>

definition grid_create ::
  "allocator \<Rightarrow> heap \<Rightarrow> cint \<Rightarrow> cint \<Rightarrow> addr option \<Rightarrow> cint \<Rightarrow> (heap \<times> Grid option) run" where
  "grid_create alloc hp height_in width_in positive_cells_in positive_cell_count_in =
     (if height_in \<le>s 0 \<or> width_in \<le>s 0 then Returns (hp, None)
      else if \<not> alloc sizeof_Grid then Returns (hp, None)
      else
        let grid = \<lparr>height = height_in, width = width_in, positive_cells = None,
                    positive_cell_count = positive_cell_count_in\<rparr>
        in if 0 <s positive_cell_count_in \<and> positive_cells_in \<noteq> None then
             (if \<not> alloc (nat (sint positive_cell_count_in) * sizeof_Position)
              then Returns (hp, None)
              else
                (case copy_positions hp (the positive_cells_in)
                        (nat (sint positive_cell_count_in)) of
                   None \<Rightarrow> InvalidRead
                 | Some block \<Rightarrow>
                     Returns (hp @ [block], Some (grid\<lparr>positive_cells := Some (length hp)\<rparr>))))
           else Returns (hp, Some grid))"

definition grid_is_valid_position :: "Grid option \<Rightarrow> Position \<Rightarrow> bool" where
  "grid_is_valid_position grid pos =
     (case grid of
        None \<Rightarrow> False
      | Some g \<Rightarrow> 0 \<le>s row pos \<and> row pos <s height g \<and>
                  0 \<le>s column pos \<and> column pos <s width g)"

text \<open>The read \<^verbatim>\<open>grid->positive_cells[i]\<close>.\<close>

definition read_cell :: "heap \<Rightarrow> Grid \<Rightarrow> cint \<Rightarrow> Position option" where
  "read_cell hp g i =
     (case positive_cells g of
        None \<Rightarrow> None
      | Some a \<Rightarrow>
          if a < length hp \<and> 0 \<le> sint i \<and> nat (sint i) < length (hp ! a)
          then Some (hp ! a ! nat (sint i)) else None)"

lemma sint_succ:
  fixes i n :: cint
  assumes "i <s n"
  shows "sint (i + 1) = sint i + 1"
proof -
  have "sint i < sint n" using assms by (simp add: word_sless_alt)
  moreover have "sint n < 2147483648" using sint_lt[of n] by simp
  moreover have "- 2147483648 \<le> sint i" using sint_ge[of i] by simp
  ultimately show ?thesis
    by (simp add: sint_word_ariths signed_take_bit_int_eq_self)
qed

text \<open>The loop of \<^verbatim>\<open>grid_validate_positions\<close>, from index \<open>i\<close> on.\<close>

function grid_validate_positions_loop :: "heap \<Rightarrow> Grid \<Rightarrow> cint \<Rightarrow> bool run" where
  "grid_validate_positions_loop hp g i =
     (if i <s positive_cell_count g then
        (case read_cell hp g i of
           None \<Rightarrow> InvalidRead
         | Some c \<Rightarrow>
             if \<not> grid_is_valid_position (Some g) c then Returns False
             else grid_validate_positions_loop hp g (i + 1))
      else Returns True)"
  by pat_completeness auto
termination
  by (relation "measure (\<lambda>(hp, g, i). nat (sint (positive_cell_count g) - sint i))")
     (auto simp: sint_succ word_sless_alt)

declare grid_validate_positions_loop.simps [simp del]

definition grid_validate_positions :: "heap \<Rightarrow> Grid option \<Rightarrow> bool run" where
  "grid_validate_positions hp grid =
     (case grid of None \<Rightarrow> Returns False | Some g \<Rightarrow> grid_validate_positions_loop hp g 0)"

section \<open>BoundaryHandler (boundary_handler.h)\<close>

text \<open>
  Modelled from the spec: \<^verbatim>\<open>boundary_handler_is_within_bounds\<close> is declared in
  \<^verbatim>\<open>boundary_handler.h\<close> and its body is not among the sources. The specification defines
  it identically to \<^verbatim>\<open>grid_is_valid_position\<close>, and \<^verbatim>\<open>test_properties.c\<close> asserts that the two
  agree.
\<close>

definition boundary_handler_is_within_bounds :: "Position \<Rightarrow> Grid option \<Rightarrow> bool" where
  "boundary_handler_is_within_bounds pos grid = grid_is_valid_position grid pos"

section \<open>NeighborhoodCalculator (neighborhood_calculator.c)\<close>

text \<open>
  The two loops of \<^verbatim>\<open>enumerate_neighborhood\<close> run while the counter is \<open><=\<close> a bound, so
  with the bound at the largest \<^verbatim>\<open>int\<close> they do not end: \<open>None\<close> is not returning.
\<close>

partial_function (option) enumerate_neighborhood_cols ::
  "allocator \<Rightarrow> Position \<Rightarrow> Grid option \<Rightarrow> cint \<Rightarrow> cint \<Rightarrow> cint \<Rightarrow> PositionSet option
     \<Rightarrow> PositionSet option option" where
  "enumerate_neighborhood_cols alloc center grid delta_row remaining_distance delta_col neighborhood =
     (if delta_col \<le>s remaining_distance then
        (let candidate = position_create (row center + delta_row) (column center + delta_col)
         in enumerate_neighborhood_cols alloc center grid delta_row remaining_distance (delta_col + 1)
              (if boundary_handler_is_within_bounds candidate grid
               then snd (position_set_add alloc neighborhood candidate) else neighborhood))
      else Some neighborhood)"

partial_function (option) enumerate_neighborhood_rows ::
  "allocator \<Rightarrow> Position \<Rightarrow> cint \<Rightarrow> Grid option \<Rightarrow> cint \<Rightarrow> PositionSet option
     \<Rightarrow> PositionSet option option" where
  "enumerate_neighborhood_rows alloc center distance_threshold grid delta_row neighborhood =
     (if delta_row \<le>s distance_threshold then
        (let remaining_distance = distance_threshold - c_abs delta_row
         in Option.bind
              (enumerate_neighborhood_cols alloc center grid delta_row remaining_distance
                 (- remaining_distance) neighborhood)
              (enumerate_neighborhood_rows alloc center distance_threshold grid (delta_row + 1)))
      else Some neighborhood)"

declare enumerate_neighborhood_cols.simps [code]
declare enumerate_neighborhood_rows.simps [code]

definition enumerate_neighborhood ::
  "allocator \<Rightarrow> Position \<Rightarrow> cint \<Rightarrow> Grid option \<Rightarrow> PositionSet option option" where
  "enumerate_neighborhood alloc center distance_threshold grid =
     (case position_set_create alloc of
        None \<Rightarrow> Some None
      | Some s \<Rightarrow>
          enumerate_neighborhood_rows alloc center distance_threshold grid
            (- distance_threshold) (Some s))"

text \<open>The saturation branch: every \<open>(row, col)\<close> of the grid is added, row by row.\<close>

function all_cells_cols ::
  "allocator \<Rightarrow> Grid \<Rightarrow> cint \<Rightarrow> cint \<Rightarrow> PositionSet option \<Rightarrow> PositionSet option" where
  "all_cells_cols alloc g r c all_cells =
     (if c <s width g
      then all_cells_cols alloc g r (c + 1)
             (snd (position_set_add alloc all_cells (position_create r c)))
      else all_cells)"
  by pat_completeness auto
termination
  by (relation "measure (\<lambda>(alloc, g, r, c, s). nat (sint (width g) - sint c))")
     (auto simp: sint_succ word_sless_alt)

declare all_cells_cols.simps [simp del]

function all_cells_rows ::
  "allocator \<Rightarrow> Grid \<Rightarrow> cint \<Rightarrow> PositionSet option \<Rightarrow> PositionSet option" where
  "all_cells_rows alloc g r all_cells =
     (if r <s height g
      then all_cells_rows alloc g (r + 1) (all_cells_cols alloc g r 0 all_cells)
      else all_cells)"
  by pat_completeness auto
termination
  by (relation "measure (\<lambda>(alloc, g, r, s). nat (sint (height g) - sint r))")
     (auto simp: sint_succ word_sless_alt)

declare all_cells_rows.simps [simp del]

text \<open>
  The loop over \<^verbatim>\<open>j\<close> that adds \<^verbatim>\<open>neighborhood->positions[j]\<close> for every \<open>j\<close> below the
  size of the neighborhood, in index order.
\<close>

fun add_neighborhood ::
  "allocator \<Rightarrow> Position list \<Rightarrow> PositionSet option \<Rightarrow> PositionSet option" where
  "add_neighborhood alloc [] all_cells = all_cells"
| "add_neighborhood alloc (p # ps) all_cells =
     add_neighborhood alloc ps (snd (position_set_add alloc all_cells p))"

text \<open>The loop over the positive cells, from index \<open>i\<close> on.\<close>

function positive_cells_loop ::
  "allocator \<Rightarrow> heap \<Rightarrow> Grid \<Rightarrow> cint \<Rightarrow> cint \<Rightarrow> PositionSet option
     \<Rightarrow> (PositionSet option \<times> ErrorCode) run" where
  "positive_cells_loop alloc hp g distance_threshold i all_cells =
     (if i <s positive_cell_count g then
        (case read_cell hp g i of
           None \<Rightarrow> InvalidRead
         | Some c \<Rightarrow>
            (case enumerate_neighborhood alloc c distance_threshold (Some g) of
               None \<Rightarrow> NoReturn
             | Some None \<Rightarrow> Returns (None, ERROR_MEMORY_ALLOCATION)
             | Some (Some neighborhood) \<Rightarrow>
                 positive_cells_loop alloc hp g distance_threshold (i + 1)
                   (add_neighborhood alloc (positions neighborhood) all_cells)))
      else Returns (all_cells, ERROR_NONE))"
  by pat_completeness auto
termination
  by (relation "measure (\<lambda>(alloc, hp, g, n, i, s). nat (sint (positive_cell_count g) - sint i))")
     (auto simp: sint_succ word_sless_alt)

declare positive_cells_loop.simps [simp del]

definition neighborhood_calculator_get_cells ::
  "allocator \<Rightarrow> heap \<Rightarrow> Grid option \<Rightarrow> cint \<Rightarrow> (PositionSet option \<times> ErrorCode) run" where
  "neighborhood_calculator_get_cells alloc hp grid distance_threshold =
     (case grid of
        None \<Rightarrow> Returns (None, ERROR_INVALID_GRID_DIMENSIONS)
      | Some g \<Rightarrow>
          if height g \<le>s 0 \<or> width g \<le>s 0 then Returns (None, ERROR_INVALID_GRID_DIMENSIONS)
          else if distance_threshold <s 0 then Returns (None, ERROR_INVALID_DISTANCE_THRESHOLD)
          else
            (case grid_validate_positions hp grid of
               InvalidRead \<Rightarrow> InvalidRead
             | NoReturn \<Rightarrow> NoReturn
             | Returns False \<Rightarrow> Returns (None, ERROR_POSITION_OUT_OF_BOUNDS)
             | Returns True \<Rightarrow>
                (let all_cells = position_set_create alloc
                 in if all_cells = None then Returns (None, ERROR_MEMORY_ALLOCATION)
                    else if positive_cell_count g = 0 then Returns (all_cells, ERROR_NONE)
                    else
                      let max_possible_distance = (height g - 1) + (width g - 1)
                      in if max_possible_distance \<le>s distance_threshold
                         then Returns (all_cells_rows alloc g 0 all_cells, ERROR_NONE)
                         else positive_cells_loop alloc hp g distance_threshold 0 all_cells)))"

definition neighborhood_calculator_count ::
  "allocator \<Rightarrow> heap \<Rightarrow> Grid option \<Rightarrow> cint \<Rightarrow> (cint \<times> ErrorCode) run" where
  "neighborhood_calculator_count alloc hp grid distance_threshold =
     (case neighborhood_calculator_get_cells alloc hp grid distance_threshold of
        InvalidRead \<Rightarrow> InvalidRead
      | NoReturn \<Rightarrow> NoReturn
      | Returns (cells, error_code) \<Rightarrow>
          if cells = None then Returns (- 1, error_code)
          else Returns (word_of_nat (position_set_size cells), error_code))"

section \<open>The grid as the specification sees it\<close>

text \<open>
  The specification's grid is a height, a width and a sequence of positive cells. A
  \<^verbatim>\<open>Grid\<close> of the source stands for one when its count is not negative and its pointer
  leads to at least that many positions: \<open>grid_cells\<close> is then the sequence, and \<open>None\<close>
  otherwise.
\<close>

definition grid_cells :: "heap \<Rightarrow> Grid \<Rightarrow> Position list option" where
  "grid_cells hp g =
     (let n = sint (positive_cell_count g)
      in if n = 0 then Some []
         else if n < 0 then None
         else (case positive_cells g of
                 None \<Rightarrow> None
               | Some a \<Rightarrow>
                   if a < length hp \<and> nat n \<le> length (hp ! a)
                   then Some (take (nat n) (hp ! a)) else None))"

text \<open>
  The diamond of radius \<open>n\<close> around a cell, not clipped: all integer points at Manhattan
  distance at most \<open>n\<close>.
\<close>

definition diamond :: "Position \<Rightarrow> int \<Rightarrow> (int \<times> int) set" where
  "diamond c n = {(r, k). \<bar>r - sint (row c)\<bar> + \<bar>k - sint (column c)\<bar> \<le> n}"

text \<open>
  How a set grows when positions are added to it: \<open>grows_by alloc s X s'\<close> says that
  \<open>s'\<close> keeps the positions of \<open>s\<close>, adds only positions of \<open>X\<close>, adds all of them when
  every allocation is granted, and holds no position twice if \<open>s\<close> held none twice.
\<close>

definition grows_by :: "allocator \<Rightarrow> PositionSet \<Rightarrow> Position set \<Rightarrow> PositionSet \<Rightarrow> bool" where
  "grows_by alloc s X s' \<longleftrightarrow>
     set (positions s) \<subseteq> set (positions s')
     \<and> set (positions s') \<subseteq> set (positions s) \<union> X
     \<and> (all_granted alloc \<longrightarrow> X \<subseteq> set (positions s'))
     \<and> (distinct (positions s) \<longrightarrow> distinct (positions s'))"

text \<open>The set that a call of \<^verbatim>\<open>neighborhood_calculator_get_cells\<close> hands back.\<close>

definition returned_set :: "(PositionSet option \<times> ErrorCode) run \<Rightarrow> PositionSet option" where
  "returned_set r = (case r of Returns (cells, error_code) \<Rightarrow> cells | _ \<Rightarrow> None)"

text \<open>A set holds no two positions that \<^verbatim>\<open>position_equals\<close> takes for equal.\<close>

definition unique_positions :: "PositionSet \<Rightarrow> bool" where
  "unique_positions s \<longleftrightarrow>
     (\<forall>i < length (positions s). \<forall>j < length (positions s).
        i \<noteq> j \<longrightarrow> \<not> position_equals (positions s ! i) (positions s ! j))"

text \<open>
  What \<^verbatim>\<open>grid_create\<close> needs of its caller. \<open>buffer_readable\<close>: a buffer that is not
  \<^verbatim>\<open>NULL\<close> is a block of at least \<open>n\<close> positions, so that the \<^verbatim>\<open>memcpy\<close> reads inside it.
  \<open>buffer_holds\<close>: the count is not negative and the buffer holds at least that many
  positions, \<^verbatim>\<open>NULL\<close> holding none.
\<close>

definition buffer_readable :: "heap \<Rightarrow> addr option \<Rightarrow> cint \<Rightarrow> bool" where
  "buffer_readable hp buf n \<longleftrightarrow>
     (case buf of
        None \<Rightarrow> True
      | Some a \<Rightarrow> sint n \<le> 0 \<or> (a < length hp \<and> nat (sint n) \<le> length (hp ! a)))"

definition buffer_holds :: "heap \<Rightarrow> addr option \<Rightarrow> cint \<Rightarrow> bool" where
  "buffer_holds hp buf n \<longleftrightarrow>
     0 \<le> sint n \<and>
     (case buf of
        None \<Rightarrow> sint n = 0
      | Some a \<Rightarrow> sint n = 0 \<or> (a < length hp \<and> nat (sint n) \<le> length (hp ! a)))"

section \<open>Concrete grids\<close>

text \<open>
  Allocators and grids on which the theorems below are instantiated: the allocator that
  grants every request and the one that grants requests up to a number of bytes; one
  positive cell at \<open>(0, 0)\<close> in a grid of any size, and a two-entry array of which a grid
  reads the first \<open>n\<close>.
\<close>

definition grant_all :: allocator where
  "grant_all n = True"

definition grant_up_to :: "nat \<Rightarrow> allocator" where
  "grant_up_to limit n \<longleftrightarrow> n \<le> limit"

text \<open>A set that \<^verbatim>\<open>position_set_create\<close> and sixteen adds have filled to its capacity.\<close>

definition full_set :: PositionSet where
  "full_set = \<lparr>positions = map (position_create 0) [0, 1, 2, 3, 4, 5, 6, 7, 8, 9, 10, 11, 12, 13, 14, 15],
                capacity = INITIAL_CAPACITY\<rparr>"

definition one_cell_heap :: heap where
  "one_cell_heap = [[position_create 0 0]]"

definition one_cell_grid :: "cint \<Rightarrow> cint \<Rightarrow> Grid" where
  "one_cell_grid h w = \<lparr>height = h, width = w, positive_cells = Some 0, positive_cell_count = 1\<rparr>"

definition two_cell_heap :: heap where
  "two_cell_heap = [[position_create 1 1, position_create 5 0]]"

definition small_grid :: "cint \<Rightarrow> cint \<Rightarrow> cint \<Rightarrow> Grid" where
  "small_grid h w n = \<lparr>height = h, width = w, positive_cells = Some 0, positive_cell_count = n\<rparr>"

text \<open>
  A grid that reads \<open>n\<close> cells from the block at address \<open>a\<close>, and a store with the two
  cells \<open>c1\<close>, \<open>c2\<close> at address 0 and \<open>c2\<close> alone at address 1.
\<close>

definition grid_at :: "cint \<Rightarrow> cint \<Rightarrow> addr \<Rightarrow> cint \<Rightarrow> Grid" where
  "grid_at h w a n = \<lparr>height = h, width = w, positive_cells = Some a, positive_cell_count = n\<rparr>"

definition pair_heap :: "Position \<Rightarrow> Position \<Rightarrow> heap" where
  "pair_heap c1 c2 = [[c1, c2], [c2]]"

section \<open>Signed values of C integers\<close>

lemma sint_bounds: "- 2147483648 \<le> sint (a::cint) \<and> sint a < 2147483648"
  using sint_ge[of a] sint_lt[of a] by simp

lemma sint_add_exact:
  fixes a b :: cint
  assumes "- 2147483648 \<le> sint a + sint b" "sint a + sint b < 2147483648"
  shows "sint (a + b) = sint a + sint b"
  using assms by (simp add: sint_word_ariths signed_take_bit_int_eq_self)

lemma sint_sub_exact:
  fixes a b :: cint
  assumes "- 2147483648 \<le> sint a - sint b" "sint a - sint b < 2147483648"
  shows "sint (a - b) = sint a - sint b"
  using assms by (simp add: sint_word_ariths signed_take_bit_int_eq_self)

lemma sint_neg_exact:
  fixes a :: cint
  assumes "sint a \<noteq> - 2147483648"
  shows "sint (- a) = - sint a"
  using assms sint_bounds[of a] by (simp add: sint_word_ariths signed_take_bit_int_eq_self)

lemma sless_sint: "(x::cint) <s y \<longleftrightarrow> sint x < sint y"
  by (simp add: word_sless_alt)

lemma sle_sint: "(x::cint) \<le>s y \<longleftrightarrow> sint x \<le> sint y"
  by (simp add: word_sle_eq)

lemma sint_eq_iff: "sint (x::cint) = sint y \<longleftrightarrow> x = y"
  by (rule signed_word_eqI iffI | simp)+

lemma c_abs_exact:
  assumes "sint x \<noteq> - 2147483648"
  shows "sint (c_abs x) = \<bar>sint x\<bar>"
  using assms by (simp add: c_abs_def sless_sint sint_neg_exact)

lemma c_abs_neg: "c_abs (- x) = c_abs x"
proof (cases "sint x = - 2147483648")
  case True
  have "x = word_of_int (sint x)" by simp
  then have "x = - 2147483648" unfolding True by simp
  moreover have "- (- 2147483648 :: cint) = - 2147483648" by simp
  ultimately show ?thesis by (simp only:)
next
  case False
  then have "sint (- x) = - sint x" by (rule sint_neg_exact)
  then show ?thesis
    by (cases "sint x = 0") (auto simp: c_abs_def sless_sint simp flip: sint_eq_iff)
qed

lemma sint_of_int_exact:
  assumes "- 2147483648 \<le> i" "i < 2147483648"
  shows "sint (word_of_int i :: cint) = i"
  using assms by (simp add: signed_of_int signed_take_bit_int_eq_self)

lemma sint_succ_le:
  fixes i n :: cint
  assumes "i <s n"
  shows "sint i \<le> sint k \<longleftrightarrow> k = i \<or> sint (i + 1) \<le> sint k"
  using sint_succ[OF assms] sint_eq_iff[of i k] by auto

lemma sint_succ_le':
  fixes i n :: cint
  assumes "i \<le>s n" "sint n < 2147483647"
  shows "sint (i + 1) = sint i + 1"
    and "sint i \<le> sint k \<longleftrightarrow> k = i \<or> sint (i + 1) \<le> sint k"
proof -
  have "sint i \<le> sint n" using assms by (simp add: sle_sint)
  then show a: "sint (i + 1) = sint i + 1"
    using assms(2) sint_bounds[of i] by (subst sint_add_exact) simp_all
  show "sint i \<le> sint k \<longleftrightarrow> k = i \<or> sint (i + 1) \<le> sint k"
    using a sint_eq_iff[of i k] by auto
qed

lemma sint_add_from_nonneg:
  fixes a b :: cint
  assumes "0 \<le> sint a" "0 \<le> sint (a + b)"
  shows "sint (a + b) = sint a + sint b"
proof (cases "sint a + sint b < 2147483648")
  case True
  then show ?thesis using assms(1) sint_bounds[of b] by (intro sint_add_exact) linarith+
next
  case False
  let ?x = "sint a + sint b"
  have xb: "2147483648 \<le> ?x" "?x < 4294967296"
    using False sint_bounds[of a] sint_bounds[of b] by linarith+
  have "sint (a + b) = (?x + 2147483648) mod 4294967296 - 2147483648"
    by (simp add: sint_word_ariths signed_take_bit_eq_take_bit_shift take_bit_eq_mod)
  also have "(?x + 2147483648) mod 4294967296 = ?x + 2147483648 - 4294967296"
    using xb by (simp add: mod_pos_geq)
  finally have "sint (a + b) < 0" using xb by linarith
  with assms(2) show ?thesis by simp
qed

section \<open>Position: the Manhattan distance\<close>

lemma position_equals_iff: "position_equals a b \<longleftrightarrow> a = b"
  by (auto simp: position_equals_def)

lemma distance_sym: "position_manhattan_distance a b = position_manhattan_distance b a"
proof -
  have "row b - row a = - (row a - row b)" "column b - column a = - (column a - column b)"
    by simp_all
  then show ?thesis
    unfolding position_manhattan_distance_def Let_def by (simp only: c_abs_neg)
qed

lemma distance_exact:
  assumes "manhattan a b \<le> INT_MAX"
  shows "sint (position_manhattan_distance a b) = manhattan a b"
proof -
  let ?dr = "sint (row a) - sint (row b)" and ?dc = "sint (column a) - sint (column b)"
  from assms have b: "\<bar>?dr\<bar> + \<bar>?dc\<bar> < 2147483648"
    by (simp add: manhattan_def INT_MAX_def)
  have r: "sint (row a - row b) = ?dr" using b by (intro sint_sub_exact) linarith+
  have c: "sint (column a - column b) = ?dc" using b by (intro sint_sub_exact) linarith+
  have ar: "sint (c_abs (row a - row b)) = \<bar>?dr\<bar>" using b r by (subst c_abs_exact) auto
  have ac: "sint (c_abs (column a - column b)) = \<bar>?dc\<bar>" using b c by (subst c_abs_exact) auto
  show ?thesis
    unfolding position_manhattan_distance_def Let_def manhattan_def
    using b ar ac by (subst sint_add_exact) auto
qed

lemma distance_zero_iff:
  assumes "manhattan a b \<le> INT_MAX"
  shows "position_manhattan_distance a b = 0 \<longleftrightarrow> a = b"
proof -
  have "position_manhattan_distance a b = 0 \<longleftrightarrow> sint (position_manhattan_distance a b) = 0"
    using sint_eq_iff[of "position_manhattan_distance a b" 0] by simp
  also have "\<dots> \<longleftrightarrow> manhattan a b = 0" by (simp add: distance_exact[OF assms])
  also have "\<dots> \<longleftrightarrow> sint (row a) = sint (row b) \<and> sint (column a) = sint (column b)"
    by (auto simp: manhattan_def)
  also have "\<dots> \<longleftrightarrow> a = b" by (auto simp: sint_eq_iff)
  finally show ?thesis .
qed

text \<open>
  Claim C5, as amended. Whenever \<open>|a.row - b.row| + |a.column - b.column|\<close> is at most
  the largest \<^verbatim>\<open>int\<close>, \<^verbatim>\<open>position_manhattan_distance(a, b)\<close> is that number, it is not
  negative, it is the same in both directions, and it is zero exactly when \<open>a\<close> and \<open>b\<close>
  have equal rows and columns.
\<close>

theorem position_manhattan_distance_in_range:
  assumes "manhattan a b \<le> INT_MAX"
  shows "sint (position_manhattan_distance a b) = manhattan a b
       \<and> 0 \<le> sint (position_manhattan_distance a b)
       \<and> position_manhattan_distance a b = position_manhattan_distance b a
       \<and> (position_manhattan_distance a b = 0 \<longleftrightarrow> position_equals a b)"
proof -
  have "0 \<le> manhattan a b" by (simp add: manhattan_def)
  then show ?thesis
    using distance_exact[OF assms] distance_zero_iff[OF assms] distance_sym[of a b]
    by (simp add: position_equals_iff)
qed

theorem position_manhattan_distance_in_range_witness:
  "manhattan (position_create 5 5) (position_create 3 9) \<le> INT_MAX
   \<and> sint (position_manhattan_distance (position_create 5 5) (position_create 3 9)) = 6
   \<and> position_manhattan_distance (position_create 3 9) (position_create 5 5) = 6
   \<and> \<not> position_equals (position_create 5 5) (position_create 3 9)"
proof -
  have h: "manhattan (position_create 5 5) (position_create 3 9) \<le> INT_MAX"
    by (simp add: manhattan_def position_create_def INT_MAX_def)
  have m: "manhattan (position_create 5 5) (position_create 3 9) = 6"
    by (simp add: manhattan_def position_create_def)
  from position_manhattan_distance_in_range[OF h] have
    "sint (position_manhattan_distance (position_create 5 5) (position_create 3 9)) = 6"
    "position_manhattan_distance (position_create 5 5) (position_create 3 9) =
       position_manhattan_distance (position_create 3 9) (position_create 5 5)"
    "position_manhattan_distance (position_create 5 5) (position_create 3 9) = 0 \<longleftrightarrow>
       position_equals (position_create 5 5) (position_create 3 9)"
    unfolding m by blast+
  moreover from this(1) have
    "position_manhattan_distance (position_create 5 5) (position_create 3 9) = 6"
    using sint_eq_iff[of _ "6::cint"] by simp
  ultimately show ?thesis using h by auto
qed

text \<open>
  Claim C5 as stated fails where the sum leaves the range of \<^verbatim>\<open>int\<close>: from \<open>(0, 0)\<close> to
  \<open>(2^30, 2^30)\<close> the distance is \<open>2^31\<close>, and the function returns \<open>-2^31\<close>.
\<close>

theorem position_manhattan_distance_overflow:
  "manhattan (position_create 1073741824 1073741824) (position_create 0 0) = 2147483648
   \<and> sint (position_manhattan_distance (position_create 1073741824 1073741824)
             (position_create 0 0)) = - 2147483648"
  by (simp add: manhattan_def position_manhattan_distance_def position_create_def c_abs_def)

section \<open>PositionSet: adding positions\<close>

lemma contains_scan_iff: "contains_scan ps pos \<longleftrightarrow> pos \<in> set ps"
  by (induction ps) (auto simp: position_equals_iff)

lemma position_set_contains_Some:
  "position_set_contains (Some s) pos \<longleftrightarrow> pos \<in> set (positions s)"
  by (simp add: position_set_contains_def contains_scan_iff)

lemma all_grantedD: "all_granted alloc \<Longrightarrow> alloc n"
  by (simp add: all_granted_def)

lemma grant_all_granted: "all_granted grant_all"
  by (simp add: all_granted_def grant_all_def)

lemma position_set_add_old:
  assumes "pos \<in> set (positions s)"
  shows "position_set_add alloc (Some s) pos = (False, Some s)"
  using assms by (simp add: position_set_add_def position_set_contains_Some)

lemma position_set_add_room:
  assumes "pos \<notin> set (positions s)" "length (positions s) < capacity s"
  shows "position_set_add alloc (Some s) pos = (True, Some (s\<lparr>positions := positions s @ [pos]\<rparr>))"
  using assms by (simp add: position_set_add_def position_set_contains_Some)

lemma position_set_add_grown:
  assumes "pos \<notin> set (positions s)" "capacity s \<le> length (positions s)"
      and "alloc (capacity s * 2 * sizeof_Position)"
  shows "position_set_add alloc (Some s) pos
           = (True, Some (s\<lparr>capacity := capacity s * 2, positions := positions s @ [pos]\<rparr>))"
  using assms by (simp add: position_set_add_def position_set_contains_Some Let_def)

lemma position_set_add_refused:
  assumes "pos \<notin> set (positions s)" "capacity s \<le> length (positions s)"
      and "\<not> alloc (capacity s * 2 * sizeof_Position)"
  shows "position_set_add alloc (Some s) pos = (False, Some s)"
  using assms by (simp add: position_set_add_def position_set_contains_Some Let_def)

lemma position_set_add_cases:
  "(position_set_add alloc (Some s) pos = (False, Some s)
      \<and> (pos \<in> set (positions s)
          \<or> (capacity s \<le> length (positions s) \<and> \<not> alloc (capacity s * 2 * sizeof_Position))))
   \<or> (\<exists>s'. position_set_add alloc (Some s) pos = (True, Some s')
          \<and> positions s' = positions s @ [pos] \<and> pos \<notin> set (positions s)
          \<and> (length (positions s) < capacity s \<or> alloc (capacity s * 2 * sizeof_Position)))"
proof (cases "pos \<in> set (positions s)")
  case True
  then show ?thesis using position_set_add_old by blast
next
  case new: False
  show ?thesis
  proof (cases "length (positions s) < capacity s")
    case True
    then show ?thesis using position_set_add_room[OF new True, of alloc] new by auto
  next
    case False
    then have full: "capacity s \<le> length (positions s)" by simp
    show ?thesis
    proof (cases "alloc (capacity s * 2 * sizeof_Position)")
      case True
      then show ?thesis using position_set_add_grown[of pos s alloc] new full by auto
    next
      case False
      then show ?thesis using position_set_add_refused[of pos s alloc] new full by blast
    qed
  qed
qed

lemma grows_by_refl: "grows_by alloc s {} s"
  by (simp add: grows_by_def)

lemma grows_by_trans:
  assumes "grows_by alloc s X s1" "grows_by alloc s1 Y s2"
  shows "grows_by alloc s (X \<union> Y) s2"
  using assms unfolding grows_by_def by blast

lemma grows_by_from_empty:
  assumes "grows_by alloc s X s'" "positions s = []"
  shows "distinct (positions s')" "set (positions s') \<subseteq> X"
    "all_granted alloc \<Longrightarrow> set (positions s') = X"
  using assms unfolding grows_by_def by auto

lemma add_result:
  "\<exists>s'. snd (position_set_add alloc (Some s) p) = Some s' \<and> grows_by alloc s {p} s'"
proof -
  from position_set_add_cases[of alloc s p]
  consider "position_set_add alloc (Some s) p = (False, Some s)" "p \<in> set (positions s)"
    | "position_set_add alloc (Some s) p = (False, Some s)"
      "\<not> alloc (capacity s * 2 * sizeof_Position)"
    | s' where "position_set_add alloc (Some s) p = (True, Some s')"
      "positions s' = positions s @ [p]" "p \<notin> set (positions s)"
    by blast
  then show ?thesis
  proof cases
    case 1
    then show ?thesis by (auto simp: grows_by_def)
  next
    case 2
    then have "\<not> all_granted alloc" using all_grantedD by blast
    with 2 show ?thesis by (auto simp: grows_by_def)
  next
    case 3
    then show ?thesis by (auto simp: grows_by_def)
  qed
qed

lemma cond_add_result:
  "\<exists>s1. (if b then snd (position_set_add alloc (Some s) p) else Some s) = Some s1
      \<and> grows_by alloc s (if b then {p} else {}) s1"
proof (cases b)
  case True
  then show ?thesis using add_result[of alloc s p] by auto
next
  case False
  then show ?thesis by (simp add: grows_by_refl)
qed

section \<open>NeighborhoodCalculator: the loops\<close>

lemma all_cells_cols_result:
  "\<exists>s'. all_cells_cols alloc g r c (Some s) = Some s'
      \<and> grows_by alloc s
            {position_create r c' | c'. sint c \<le> sint c' \<and> sint c' < sint (width g)} s'"
proof (induction alloc g r c "Some s" arbitrary: s rule: all_cells_cols.induct)
  case (1 alloc g r c)
  show ?case
  proof (cases "c <s width g")
    case True
    obtain s1 where s1: "snd (position_set_add alloc (Some s) (position_create r c)) = Some s1"
      "grows_by alloc s {position_create r c} s1"
      using add_result by blast
    from "1.hyps"[OF True s1(1)] obtain s' where s':
      "all_cells_cols alloc g r (c + 1) (Some s1) = Some s'"
      "grows_by alloc s1
            {position_create r c' | c'. sint (c + 1) \<le> sint c' \<and> sint c' < sint (width g)} s'"
      by blast
    have split: "{position_create r c' | c'. sint c \<le> sint c' \<and> sint c' < sint (width g)}
          = {position_create r c} \<union>
             {position_create r c' | c'. sint (c + 1) \<le> sint c' \<and> sint c' < sint (width g)}"
      using True sint_succ_le[OF True] by (auto simp: sless_sint)
    have "all_cells_cols alloc g r c (Some s) = Some s'"
      using True s1(1) s'(1) by (subst all_cells_cols.simps) simp
    then show ?thesis unfolding split using grows_by_trans[OF s1(2) s'(2)] by blast
  next
    case False
    then have e: "{position_create r c' | c'. sint c \<le> sint c' \<and> sint c' < sint (width g)} = {}"
      by (auto simp: sless_sint)
    have "all_cells_cols alloc g r c (Some s) = Some s"
      using False by (subst all_cells_cols.simps) simp
    then show ?thesis unfolding e by (simp add: grows_by_refl)
  qed
qed

lemma all_cells_rows_result:
  "\<exists>s'. all_cells_rows alloc g r (Some s) = Some s'
      \<and> grows_by alloc s
            {position_create r' c' | r' c'. sint r \<le> sint r' \<and> sint r' < sint (height g)
                \<and> 0 \<le> sint c' \<and> sint c' < sint (width g)} s'"
proof (induction alloc g r "Some s" arbitrary: s rule: all_cells_rows.induct)
  case (1 alloc g r)
  show ?case
  proof (cases "r <s height g")
    case True
    obtain s1 where s1: "all_cells_cols alloc g r 0 (Some s) = Some s1"
      "grows_by alloc s
            {position_create r c' | c'. sint (0::cint) \<le> sint c' \<and> sint c' < sint (width g)} s1"
      using all_cells_cols_result by blast
    from "1.hyps"[OF True s1(1)] obtain s' where s':
      "all_cells_rows alloc g (r + 1) (Some s1) = Some s'"
      "grows_by alloc s1
            {position_create r' c' | r' c'. sint (r + 1) \<le> sint r' \<and> sint r' < sint (height g)
                \<and> 0 \<le> sint c' \<and> sint c' < sint (width g)} s'"
      by blast
    have split: "{position_create r' c' | r' c'. sint r \<le> sint r' \<and> sint r' < sint (height g)
                \<and> 0 \<le> sint c' \<and> sint c' < sint (width g)}
          = {position_create r c' | c'. sint (0::cint) \<le> sint c' \<and> sint c' < sint (width g)} \<union>
            {position_create r' c' | r' c'. sint (r + 1) \<le> sint r' \<and> sint r' < sint (height g)
                \<and> 0 \<le> sint c' \<and> sint c' < sint (width g)}"
      using True sint_succ_le[OF True] by (auto simp: sless_sint)
    have "all_cells_rows alloc g r (Some s) = Some s'"
      using True s1(1) s'(1) by (subst all_cells_rows.simps) simp
    then show ?thesis unfolding split using grows_by_trans[OF s1(2) s'(2)] by blast
  next
    case False
    then have e: "{position_create r' c' | r' c'. sint r \<le> sint r' \<and> sint r' < sint (height g)
                \<and> 0 \<le> sint c' \<and> sint c' < sint (width g)} = {}"
      by (auto simp: sless_sint)
    have "all_cells_rows alloc g r (Some s) = Some s"
      using False by (subst all_cells_rows.simps) simp
    then show ?thesis unfolding e by (simp add: grows_by_refl)
  qed
qed

lemma valid_iff:
  "grid_is_valid_position (Some g) p \<longleftrightarrow>
     0 \<le> sint (row p) \<and> sint (row p) < sint (height g) \<and>
     0 \<le> sint (column p) \<and> sint (column p) < sint (width g)"
  by (simp add: grid_is_valid_position_def sless_sint sle_sint)

lemma all_cells_set:
  "{position_create r' c' | r' c'. sint (0::cint) \<le> sint r' \<and> sint r' < sint (height g)
                \<and> 0 \<le> sint c' \<and> sint c' < sint (width g)}
   = {p. grid_is_valid_position (Some g) p}"
proof (rule set_eqI, rule iffI)
  fix p
  assume "p \<in> {position_create r' c' | r' c'. sint (0::cint) \<le> sint r' \<and> sint r' < sint (height g)
                \<and> 0 \<le> sint c' \<and> sint c' < sint (width g)}"
  then show "p \<in> {p. grid_is_valid_position (Some g) p}"
    by (auto simp: valid_iff position_create_def)
next
  fix p
  assume "p \<in> {p. grid_is_valid_position (Some g) p}"
  then have "p = position_create (row p) (column p) \<and> sint (0::cint) \<le> sint (row p)
     \<and> sint (row p) < sint (height g) \<and> 0 \<le> sint (column p) \<and> sint (column p) < sint (width g)"
    by (simp add: valid_iff position_create_def)
  then show "p \<in> {position_create r' c' | r' c'. sint (0::cint) \<le> sint r' \<and> sint r' < sint (height g)
                \<and> 0 \<le> sint c' \<and> sint c' < sint (width g)}"
    by blast
qed

lemma card_valid:
  "card {p. grid_is_valid_position (Some g) p} = nat (sint (height g)) * nat (sint (width g))"
proof -
  let ?f = "\<lambda>(i, j). \<lparr>row = (word_of_int i :: cint), column = (word_of_int j :: cint)\<rparr>"
  let ?D = "{0..<sint (height g)} \<times> {0..<sint (width g)}"
  have sw: "\<And>i. 0 \<le> i \<Longrightarrow> i < 2147483648 \<Longrightarrow> sint (word_of_int i :: cint) = i"
    by (rule sint_of_int_exact) simp_all
  have hb: "sint (height g) \<le> 2147483648" "sint (width g) \<le> 2147483648"
    using sint_bounds[of "height g"] sint_bounds[of "width g"] by simp_all
  have inj: "inj_on ?f ?D"
  proof (rule inj_onI)
    fix x y assume x: "x \<in> ?D" and y: "y \<in> ?D" and e: "?f x = ?f y"
    obtain i j where xi: "x = (i, j)" by (cases x)
    obtain i' j' where yi: "y = (i', j')" by (cases y)
    from e xi yi have "sint (word_of_int i :: cint) = sint (word_of_int i' :: cint)"
      "sint (word_of_int j :: cint) = sint (word_of_int j' :: cint)" by simp_all
    moreover have "0 \<le> i" "i < 2147483648" "0 \<le> j" "j < 2147483648"
       "0 \<le> i'" "i' < 2147483648" "0 \<le> j'" "j' < 2147483648"
      using x y xi yi hb by auto
    ultimately show "x = y" using xi yi by (simp add: sw)
  qed
  have img: "?f ` ?D = {p. grid_is_valid_position (Some g) p}"
  proof (rule set_eqI, rule iffI)
    fix p assume "p \<in> ?f ` ?D"
    then obtain i j where ij: "0 \<le> i" "i < sint (height g)" "0 \<le> j" "j < sint (width g)"
      "p = \<lparr>row = word_of_int i, column = word_of_int j\<rparr>" by auto
    then have "sint (row p) = i" "sint (column p) = j" using hb by (simp_all add: sw)
    with ij show "p \<in> {p. grid_is_valid_position (Some g) p}" by (simp add: valid_iff)
  next
    fix p assume "p \<in> {p. grid_is_valid_position (Some g) p}"
    then have v: "0 \<le> sint (row p)" "sint (row p) < sint (height g)"
      "0 \<le> sint (column p)" "sint (column p) < sint (width g)" by (simp_all add: valid_iff)
    have "p = ?f (sint (row p), sint (column p))" by simp
    moreover have "(sint (row p), sint (column p)) \<in> ?D" using v by simp
    ultimately show "p \<in> ?f ` ?D" by (rule image_eqI)
  qed
  have "card {p. grid_is_valid_position (Some g) p} = card ?D"
    using card_image[OF inj] img by simp
  then show ?thesis by (simp add: card_cartesian_product)
qed

lemma grows_by_widen:
  assumes "grows_by alloc s X s'" "X \<subseteq> Y" "all_granted alloc \<Longrightarrow> Y \<subseteq> X"
  shows "grows_by alloc s Y s'"
  using assms unfolding grows_by_def by blast

lemma enumerate_cols_result:
  assumes "sint rem < 2147483647"
  shows "\<exists>s'. enumerate_neighborhood_cols alloc center grid dr rem dc (Some s) = Some (Some s')
      \<and> grows_by alloc s
            {p. \<exists>dc'. sint dc \<le> sint dc' \<and> sint dc' \<le> sint rem
                 \<and> p = position_create (row center + dr) (column center + dc')
                 \<and> grid_is_valid_position grid p} s'"
proof (induction k \<equiv> "nat (sint rem + 1 - sint dc)" arbitrary: dc s)
  case 0
  then have f: "\<not> dc \<le>s rem" by (simp add: sle_sint)
  then have e: "{p. \<exists>dc'. sint dc \<le> sint dc' \<and> sint dc' \<le> sint rem
                 \<and> p = position_create (row center + dr) (column center + dc')
                 \<and> grid_is_valid_position grid p} = {}"
    by (auto simp: sle_sint)
  have "enumerate_neighborhood_cols alloc center grid dr rem dc (Some s) = Some (Some s)"
    using f by (subst enumerate_neighborhood_cols.simps) simp
  then show ?case unfolding e by (simp add: grows_by_refl)
next
  case (Suc k)
  then have t: "dc \<le>s rem" by (simp add: sle_sint)
  note sc = sint_succ_le'[OF t assms]
  let ?cand = "position_create (row center + dr) (column center + dc)"
  let ?nb = "if boundary_handler_is_within_bounds ?cand grid
               then snd (position_set_add alloc (Some s) ?cand) else Some s"
  obtain s1 where s1: "?nb = Some s1"
     "grows_by alloc s (if grid_is_valid_position grid ?cand then {?cand} else {}) s1"
    unfolding boundary_handler_is_within_bounds_def
    using cond_add_result[of "grid_is_valid_position grid ?cand" alloc s ?cand] by blast
  have "k = nat (sint rem + 1 - sint (dc + 1))" using Suc(2) sc(1) by simp
  from Suc(1)[OF this] obtain s' where s':
     "enumerate_neighborhood_cols alloc center grid dr rem (dc + 1) (Some s1) = Some (Some s')"
     "grows_by alloc s1
            {p. \<exists>dc'. sint (dc + 1) \<le> sint dc' \<and> sint dc' \<le> sint rem
                 \<and> p = position_create (row center + dr) (column center + dc')
                 \<and> grid_is_valid_position grid p} s'"
     by blast
  have split: "{p. \<exists>dc'. sint dc \<le> sint dc' \<and> sint dc' \<le> sint rem
                 \<and> p = position_create (row center + dr) (column center + dc')
                 \<and> grid_is_valid_position grid p}
      = (if grid_is_valid_position grid ?cand then {?cand} else {}) \<union>
        {p. \<exists>dc'. sint (dc + 1) \<le> sint dc' \<and> sint dc' \<le> sint rem
                 \<and> p = position_create (row center + dr) (column center + dc')
                 \<and> grid_is_valid_position grid p}"
    using t sc(2) by (auto simp: sle_sint)
  have "enumerate_neighborhood_cols alloc center grid dr rem dc (Some s) = Some (Some s')"
    using t s1(1) s'(1) by (subst enumerate_neighborhood_cols.simps) (simp add: Let_def)
  then show ?case unfolding split using grows_by_trans[OF s1(2) s'(2)] by blast
qed

lemma enumerate_rows_result:
  assumes "0 \<le> sint N" "sint N < 2147483647" "- sint N \<le> sint dr"
  shows "\<exists>s'. enumerate_neighborhood_rows alloc center N grid dr (Some s) = Some (Some s')
      \<and> grows_by alloc s
            {p. \<exists>dr' dc'. sint dr \<le> sint dr' \<and> sint dr' \<le> sint N
                 \<and> \<bar>sint dc'\<bar> \<le> sint N - \<bar>sint dr'\<bar>
                 \<and> p = position_create (row center + dr') (column center + dc')
                 \<and> grid_is_valid_position grid p} s'"
  using assms(3)
proof (induction k \<equiv> "nat (sint N + 1 - sint dr)" arbitrary: dr s)
  case 0
  then have f: "\<not> dr \<le>s N" by (simp add: sle_sint)
  then have e: "{p. \<exists>dr' dc'. sint dr \<le> sint dr' \<and> sint dr' \<le> sint N
                 \<and> \<bar>sint dc'\<bar> \<le> sint N - \<bar>sint dr'\<bar>
                 \<and> p = position_create (row center + dr') (column center + dc')
                 \<and> grid_is_valid_position grid p} = {}"
    by (auto simp: sle_sint)
  have "enumerate_neighborhood_rows alloc center N grid dr (Some s) = Some (Some s)"
    using f by (subst enumerate_neighborhood_rows.simps) simp
  then show ?case unfolding e by (simp add: grows_by_refl)
next
  case (Suc k)
  then have t: "dr \<le>s N" by (simp add: sle_sint)
  then have drN: "sint dr \<le> sint N" by (simp add: sle_sint)
  note sc = sint_succ_le'[OF t assms(2)]
  let ?rem = "N - c_abs dr"
  have ab: "sint (c_abs dr) = \<bar>sint dr\<bar>"
    using Suc.prems assms(2) by (intro c_abs_exact) linarith
  have rem: "sint ?rem = sint N - \<bar>sint dr\<bar>"
    using ab drN Suc.prems assms by (subst sint_sub_exact) auto
  have nrem: "sint (- ?rem) = - (sint N - \<bar>sint dr\<bar>)"
    using rem drN Suc.prems assms by (subst sint_neg_exact) auto
  have remb: "sint ?rem < 2147483647" using rem assms by linarith
  from enumerate_cols_result[OF remb, of alloc center grid dr "- ?rem" s] obtain s1 where s1:
     "enumerate_neighborhood_cols alloc center grid dr ?rem (- ?rem) (Some s) = Some (Some s1)"
     "grows_by alloc s
            {p. \<exists>dc'. sint (- ?rem) \<le> sint dc' \<and> sint dc' \<le> sint ?rem
                 \<and> p = position_create (row center + dr) (column center + dc')
                 \<and> grid_is_valid_position grid p} s1"
     by blast
  have k: "k = nat (sint N + 1 - sint (dr + 1))" using Suc(2) sc(1) by simp
  have "- sint N \<le> sint (dr + 1)" using sc(1) Suc.prems by simp
  from Suc(1)[OF k this] obtain s' where s':
     "enumerate_neighborhood_rows alloc center N grid (dr + 1) (Some s1) = Some (Some s')"
     "grows_by alloc s1
            {p. \<exists>dr' dc'. sint (dr + 1) \<le> sint dr' \<and> sint dr' \<le> sint N
                 \<and> \<bar>sint dc'\<bar> \<le> sint N - \<bar>sint dr'\<bar>
                 \<and> p = position_create (row center + dr') (column center + dc')
                 \<and> grid_is_valid_position grid p} s'"
     by blast
  have row: "{p. \<exists>dc'. sint (- ?rem) \<le> sint dc' \<and> sint dc' \<le> sint ?rem
                 \<and> p = position_create (row center + dr) (column center + dc')
                 \<and> grid_is_valid_position grid p}
           = {p. \<exists>dc'. \<bar>sint dc'\<bar> \<le> sint N - \<bar>sint dr\<bar>
                 \<and> p = position_create (row center + dr) (column center + dc')
                 \<and> grid_is_valid_position grid p}"
    unfolding rem nrem by (intro Collect_cong ex_cong1) auto
  have split: "{p. \<exists>dr' dc'. sint dr \<le> sint dr' \<and> sint dr' \<le> sint N
                 \<and> \<bar>sint dc'\<bar> \<le> sint N - \<bar>sint dr'\<bar>
                 \<and> p = position_create (row center + dr') (column center + dc')
                 \<and> grid_is_valid_position grid p}
      = {p. \<exists>dc'. \<bar>sint dc'\<bar> \<le> sint N - \<bar>sint dr\<bar>
                 \<and> p = position_create (row center + dr) (column center + dc')
                 \<and> grid_is_valid_position grid p} \<union>
        {p. \<exists>dr' dc'. sint (dr + 1) \<le> sint dr' \<and> sint dr' \<le> sint N
                 \<and> \<bar>sint dc'\<bar> \<le> sint N - \<bar>sint dr'\<bar>
                 \<and> p = position_create (row center + dr') (column center + dc')
                 \<and> grid_is_valid_position grid p}"
    (is "?L = ?A \<union> ?B")
  proof (rule set_eqI, rule iffI)
    fix p assume "p \<in> ?L"
    then obtain dr' dc' where d: "sint dr \<le> sint dr'" "sint dr' \<le> sint N"
       "\<bar>sint dc'\<bar> \<le> sint N - \<bar>sint dr'\<bar>"
       "p = position_create (row center + dr') (column center + dc')"
       "grid_is_valid_position grid p" by blast
    from d(1) sc(2)[of dr'] consider "dr' = dr" | "sint (dr + 1) \<le> sint dr'" by blast
    then show "p \<in> ?A \<union> ?B"
    proof cases
      case 1 with d show ?thesis by blast
    next
      case 2 with d show ?thesis by blast
    qed
  next
    fix p assume "p \<in> ?A \<union> ?B"
    then show "p \<in> ?L"
    proof
      assume "p \<in> ?A"
      then show ?thesis using drN by blast
    next
      assume "p \<in> ?B"
      then obtain dr' dc' where d: "sint (dr + 1) \<le> sint dr'" "sint dr' \<le> sint N"
       "\<bar>sint dc'\<bar> \<le> sint N - \<bar>sint dr'\<bar>"
       "p = position_create (row center + dr') (column center + dc')"
       "grid_is_valid_position grid p" by blast
      from d(1) sc(1) have "sint dr \<le> sint dr'" by simp
      with d show ?thesis by blast
    qed
  qed
  have "enumerate_neighborhood_rows alloc center N grid dr (Some s) = Some (Some s')"
    using t s1(1) s'(1) by (subst enumerate_neighborhood_rows.simps) (simp add: Let_def)
  then show ?case unfolding split using grows_by_trans[OF s1(2)[unfolded row] s'(2)] by blast
qed

lemma position_set_create_cases:
  "(position_set_create alloc = None \<and> \<not> all_granted alloc)
   \<or> position_set_create alloc = Some \<lparr>positions = [], capacity = INITIAL_CAPACITY\<rparr>"
  using all_grantedD[of alloc] by (auto simp: position_set_create_def)

lemma diamond_by_offsets:
  fixes N :: cint
  assumes N: "0 \<le> sint N" and c: "grid_is_valid_position (Some g) c"
  shows "{p. \<exists>dr' dc'. sint (- N) \<le> sint dr' \<and> sint dr' \<le> sint N
                 \<and> \<bar>sint dc'\<bar> \<le> sint N - \<bar>sint dr'\<bar>
                 \<and> p = position_create (row c + dr') (column c + dc')
                 \<and> grid_is_valid_position (Some g) p}
         = {p. grid_is_valid_position (Some g) p \<and> manhattan p c \<le> sint N}"
    (is "?L = ?R")
proof (rule set_eqI, rule iffI)
  have neg: "sint (- N) = - sint N" using N by (intro sint_neg_exact) linarith
  have cv: "0 \<le> sint (row c)" "0 \<le> sint (column c)" using c by (simp_all add: valid_iff)
  {
    fix p assume "p \<in> ?L"
    then obtain dr' dc' where d: "sint (- N) \<le> sint dr'" "sint dr' \<le> sint N"
        "\<bar>sint dc'\<bar> \<le> sint N - \<bar>sint dr'\<bar>"
        "p = position_create (row c + dr') (column c + dc')"
        "grid_is_valid_position (Some g) p" by blast
    from d(4,5) have "0 \<le> sint (row c + dr')" "0 \<le> sint (column c + dc')"
      by (simp_all add: valid_iff position_create_def)
    then have "sint (row c + dr') = sint (row c) + sint dr'"
       "sint (column c + dc') = sint (column c) + sint dc'"
      using cv by (auto intro: sint_add_from_nonneg)
    then have "manhattan p c = \<bar>sint dr'\<bar> + \<bar>sint dc'\<bar>"
      using d(4) by (simp add: manhattan_def position_create_def)
    with d show "p \<in> ?R" by simp
  }
  {
    fix p assume "p \<in> ?R"
    then have v: "grid_is_valid_position (Some g) p" and m: "manhattan p c \<le> sint N" by simp_all
    have pv: "0 \<le> sint (row p)" "0 \<le> sint (column p)" using v by (simp_all add: valid_iff)
    let ?dr = "row p - row c" and ?dc = "column p - column c"
    have dr: "sint ?dr = sint (row p) - sint (row c)"
      using pv cv sint_bounds[of "row p"] sint_bounds[of "row c"] by (intro sint_sub_exact) linarith+
    have dc: "sint ?dc = sint (column p) - sint (column c)"
      using pv cv sint_bounds[of "column p"] sint_bounds[of "column c"]
      by (intro sint_sub_exact) linarith+
    have "sint (- N) \<le> sint ?dr" "sint ?dr \<le> sint N" "\<bar>sint ?dc\<bar> \<le> sint N - \<bar>sint ?dr\<bar>"
      using m unfolding dr dc neg manhattan_def by linarith+
    moreover have "p = position_create (row c + ?dr) (column c + ?dc)"
      by (simp add: position_create_def)
    ultimately show "p \<in> ?L" using v by blast
  }
qed

lemma enumerate_neighborhood_result:
  assumes N: "0 \<le> sint N" "sint N < 2147483647"
      and c: "grid_is_valid_position (Some g) c"
  shows "(enumerate_neighborhood alloc c N (Some g) = Some None \<and> \<not> all_granted alloc)
       \<or> (\<exists>nb. enumerate_neighborhood alloc c N (Some g) = Some (Some nb)
              \<and> distinct (positions nb)
              \<and> set (positions nb)
                   \<subseteq> {p. grid_is_valid_position (Some g) p \<and> manhattan p c \<le> sint N}
              \<and> (all_granted alloc \<longrightarrow> set (positions nb)
                   = {p. grid_is_valid_position (Some g) p \<and> manhattan p c \<le> sint N}))"
proof -
  from position_set_create_cases[of alloc] show ?thesis
  proof
    assume "position_set_create alloc = None \<and> \<not> all_granted alloc"
    then show ?thesis by (simp add: enumerate_neighborhood_def)
  next
    let ?e = "\<lparr>positions = [], capacity = INITIAL_CAPACITY\<rparr>"
    assume cr: "position_set_create alloc = Some ?e"
    have neg: "sint (- N) = - sint N" using N by (intro sint_neg_exact) linarith
    then have "- sint N \<le> sint (- N)" by simp
    from enumerate_rows_result[OF N this, of alloc c "Some g" ?e]
    obtain nb where nb:
      "enumerate_neighborhood_rows alloc c N (Some g) (- N) (Some ?e) = Some (Some nb)"
      "grows_by alloc ?e {p. grid_is_valid_position (Some g) p \<and> manhattan p c \<le> sint N} nb"
      unfolding diamond_by_offsets[OF N(1) c] by blast
    have "enumerate_neighborhood alloc c N (Some g) = Some (Some nb)"
      using cr nb(1) by (simp add: enumerate_neighborhood_def)
    then show ?thesis using grows_by_from_empty[OF nb(2)] by auto
  qed
qed

lemma add_neighborhood_result:
  "\<exists>s'. add_neighborhood alloc ps (Some s) = Some s' \<and> grows_by alloc s (set ps) s'"
proof (induction ps arbitrary: s)
  case Nil
  then show ?case by (simp add: grows_by_refl)
next
  case (Cons p ps)
  obtain s1 where s1: "snd (position_set_add alloc (Some s) p) = Some s1"
      "grows_by alloc s {p} s1"
    using add_result by blast
  from Cons.IH[of s1] obtain s' where s': "add_neighborhood alloc ps (Some s1) = Some s'"
      "grows_by alloc s1 (set ps) s'" by blast
  have "set (p # ps) = {p} \<union> set ps" by simp
  then show ?case using s1(1) s'(1) grows_by_trans[OF s1(2) s'(2)] by simp
qed

lemma grid_cells_count:
  assumes "grid_cells hp g = Some cs"
  shows "sint (positive_cell_count g) = int (length cs)"
  using assms by (auto simp: grid_cells_def Let_def split: if_splits option.splits)

lemma grid_cells_read:
  assumes "grid_cells hp g = Some cs" "0 \<le> sint i" "i <s positive_cell_count g"
  shows "read_cell hp g i = Some (cs ! nat (sint i))"
  using assms
  by (auto simp: grid_cells_def Let_def read_cell_def sless_sint split: if_splits option.splits)

lemma validate_loop_result:
  assumes "grid_cells hp g = Some cs" "0 \<le> sint i"
  shows "grid_validate_positions_loop hp g i =
           Returns (list_all (grid_is_valid_position (Some g)) (drop (nat (sint i)) cs))"
  using assms
proof (induction hp g i rule: grid_validate_positions_loop.induct)
  case (1 hp g i)
  note cnt = grid_cells_count[OF "1.prems"(1)]
  show ?case
  proof (cases "i <s positive_cell_count g")
    case True
    note rd = grid_cells_read[OF "1.prems" True]
    have il: "nat (sint i) < length cs" using True cnt "1.prems"(2) by (simp add: sless_sint)
    have sc: "sint (i + 1) = sint i + 1" using True by (rule sint_succ)
    have dr: "drop (nat (sint i)) cs = cs ! nat (sint i) # drop (nat (sint (i + 1))) cs"
      using il sc "1.prems"(2) by (simp add: Cons_nth_drop_Suc nat_add_distrib)
    show ?thesis
    proof (cases "grid_is_valid_position (Some g) (cs ! nat (sint i))")
      case v: True
      have "0 \<le> sint (i + 1)" using sc "1.prems"(2) by simp
      from "1.IH"[OF True rd _ "1.prems"(1) this] v
      have "grid_validate_positions_loop hp g (i + 1) =
           Returns (list_all (grid_is_valid_position (Some g)) (drop (nat (sint (i + 1))) cs))"
        by simp
      then show ?thesis using True rd v unfolding dr
        by (subst grid_validate_positions_loop.simps) simp
    next
      case False
      then show ?thesis using True rd unfolding dr
        by (subst grid_validate_positions_loop.simps) simp
    qed
  next
    case False
    then have "drop (nat (sint i)) cs = []" using cnt by (simp add: sless_sint)
    then show ?thesis using False by (subst grid_validate_positions_loop.simps) simp
  qed
qed

lemma positive_cells_loop_result:
  assumes "grid_cells hp g = Some cs"
      and "\<forall>c\<in>set cs. grid_is_valid_position (Some g) c"
      and "0 \<le> sint N" "sint N < 2147483647"
      and "0 \<le> sint i"
  shows "(positive_cells_loop alloc hp g N i (Some s) = Returns (None, ERROR_MEMORY_ALLOCATION)
           \<and> \<not> all_granted alloc)
       \<or> (\<exists>s'. positive_cells_loop alloc hp g N i (Some s) = Returns (Some s', ERROR_NONE)
              \<and> grows_by alloc s
                   {p. grid_is_valid_position (Some g) p
                       \<and> (\<exists>c\<in>set (drop (nat (sint i)) cs). manhattan p c \<le> sint N)} s')"
  using assms
proof (induction alloc hp g N i "Some s" arbitrary: s rule: positive_cells_loop.induct)
  case (1 alloc hp g N i)
  note wf = "1.prems"(1) and valid = "1.prems"(2) and N = "1.prems"(3,4) and i = "1.prems"(5)
  note cnt = grid_cells_count[OF wf]
  show ?case
  proof (cases "i <s positive_cell_count g")
    case True
    note rd = grid_cells_read[OF wf i True]
    have il: "nat (sint i) < length cs" using True cnt i by (simp add: sless_sint)
    have sc: "sint (i + 1) = sint i + 1" using True by (rule sint_succ)
    have dr: "drop (nat (sint i)) cs = cs ! nat (sint i) # drop (nat (sint (i + 1))) cs"
      using il sc i by (simp add: Cons_nth_drop_Suc nat_add_distrib)
    let ?c = "cs ! nat (sint i)"
    let ?ball = "{p. grid_is_valid_position (Some g) p \<and> manhattan p ?c \<le> sint N}"
    let ?rest = "{p. grid_is_valid_position (Some g) p
                       \<and> (\<exists>c\<in>set (drop (nat (sint (i + 1))) cs). manhattan p c \<le> sint N)}"
    have split: "{p. grid_is_valid_position (Some g) p
                       \<and> (\<exists>c\<in>set (drop (nat (sint i)) cs). manhattan p c \<le> sint N)}
                 = ?ball \<union> ?rest"
      unfolding dr by auto
    have cv: "grid_is_valid_position (Some g) ?c" using valid il by simp
    from enumerate_neighborhood_result[OF N cv, of alloc] show ?thesis
    proof
      assume f: "enumerate_neighborhood alloc ?c N (Some g) = Some None \<and> \<not> all_granted alloc"
      then have "positive_cells_loop alloc hp g N i (Some s)
                   = Returns (None, ERROR_MEMORY_ALLOCATION)"
        using True rd by (subst positive_cells_loop.simps) simp
      then show ?thesis using f by blast
    next
      assume "\<exists>nb. enumerate_neighborhood alloc ?c N (Some g) = Some (Some nb)
              \<and> distinct (positions nb) \<and> set (positions nb) \<subseteq> ?ball
              \<and> (all_granted alloc \<longrightarrow> set (positions nb) = ?ball)"
      then obtain nb where nb: "enumerate_neighborhood alloc ?c N (Some g) = Some (Some nb)"
         "set (positions nb) \<subseteq> ?ball" "all_granted alloc \<longrightarrow> set (positions nb) = ?ball"
        by blast
      obtain s1 where s1: "add_neighborhood alloc (positions nb) (Some s) = Some s1"
         "grows_by alloc s (set (positions nb)) s1"
        using add_neighborhood_result by blast
      have g1: "grows_by alloc s ?ball s1"
        using nb(2,3) by (intro grows_by_widen[OF s1(2)]) auto
      have i1: "0 \<le> sint (i + 1)" using sc i by simp
      from "1.hyps"[OF True rd nb(1) refl s1(1) wf valid N i1] show ?thesis
      proof
        assume f: "positive_cells_loop alloc hp g N (i + 1) (Some s1)
                     = Returns (None, ERROR_MEMORY_ALLOCATION) \<and> \<not> all_granted alloc"
        then have "positive_cells_loop alloc hp g N i (Some s)
                     = Returns (None, ERROR_MEMORY_ALLOCATION)"
          using True rd nb(1) s1(1) by (subst positive_cells_loop.simps) simp
        then show ?thesis using f by blast
      next
        assume "\<exists>s'. positive_cells_loop alloc hp g N (i + 1) (Some s1) = Returns (Some s', ERROR_NONE)
                  \<and> grows_by alloc s1 ?rest s'"
        then obtain s' where s':
          "positive_cells_loop alloc hp g N (i + 1) (Some s1) = Returns (Some s', ERROR_NONE)"
          "grows_by alloc s1 ?rest s'" by blast
        have "positive_cells_loop alloc hp g N i (Some s) = Returns (Some s', ERROR_NONE)"
          using True rd nb(1) s1(1) s'(1) by (subst positive_cells_loop.simps) simp
        then show ?thesis unfolding split using grows_by_trans[OF g1 s'(2)] by blast
      qed
    qed
  next
    case False
    then have "drop (nat (sint i)) cs = []" using cnt by (simp add: sless_sint)
    then have e: "{p. grid_is_valid_position (Some g) p
                       \<and> (\<exists>c\<in>set (drop (nat (sint i)) cs). manhattan p c \<le> sint N)} = {}"
      by simp
    have "positive_cells_loop alloc hp g N i (Some s) = Returns (Some s, ERROR_NONE)"
      using False by (subst positive_cells_loop.simps) simp
    then show ?thesis unfolding e by (simp add: grows_by_refl)
  qed
qed

section \<open>NeighborhoodCalculator: the result of a call\<close>

lemma sint_of_nat_exact:
  assumes "int n \<le> INT_MAX"
  shows "sint (word_of_nat n :: cint) = int n"
  using assms by (simp add: signed_of_nat signed_take_bit_int_eq_self INT_MAX_def)

lemma sint_zero_iff: "sint (x::cint) = 0 \<longleftrightarrow> x = 0"
  using sint_eq_iff[of x 0] by simp

lemma validate_result:
  assumes "grid_cells hp g = Some cs"
  shows "grid_validate_positions hp (Some g) =
           Returns (list_all (grid_is_valid_position (Some g)) cs)"
  using validate_loop_result[OF assms, of 0] by (simp add: grid_validate_positions_def)

lemma get_cells_validated:
  assumes wf: "grid_cells hp g = Some cs"
      and valid: "\<forall>c\<in>set cs. grid_is_valid_position (Some g) c"
      and dims: "0 <s height g" "0 <s width g"
      and N: "0 \<le>s N"
  shows "(neighborhood_calculator_get_cells alloc hp (Some g) N
            = Returns (None, ERROR_MEMORY_ALLOCATION) \<and> \<not> all_granted alloc)
       \<or> (\<exists>s. neighborhood_calculator_get_cells alloc hp (Some g) N = Returns (Some s, ERROR_NONE)
            \<and> distinct (positions s)
            \<and> set (positions s) \<subseteq>
                (if cs = [] then {}
                 else if (height g - 1) + (width g - 1) \<le>s N
                 then {p. grid_is_valid_position (Some g) p}
                 else {p. grid_is_valid_position (Some g) p
                          \<and> (\<exists>c\<in>set cs. manhattan p c \<le> sint N)})
            \<and> (all_granted alloc \<longrightarrow> set (positions s) =
                (if cs = [] then {}
                 else if (height g - 1) + (width g - 1) \<le>s N
                 then {p. grid_is_valid_position (Some g) p}
                 else {p. grid_is_valid_position (Some g) p
                          \<and> (\<exists>c\<in>set cs. manhattan p c \<le> sint N)})))"
proof -
  have d: "\<not> (height g \<le>s 0 \<or> width g \<le>s 0)" "\<not> N <s 0"
    using dims N by (auto simp: sless_sint sle_sint)
  have v: "grid_validate_positions hp (Some g) = Returns True"
    using validate_result[OF wf] valid by (simp add: list_all_iff)
  have cz: "positive_cell_count g = 0 \<longleftrightarrow> cs = []"
    using grid_cells_count[OF wf] sint_zero_iff[of "positive_cell_count g"] by simp
  let ?e = "\<lparr>positions = [], capacity = INITIAL_CAPACITY\<rparr>"
  from position_set_create_cases[of alloc] show ?thesis
  proof
    assume f: "position_set_create alloc = None \<and> \<not> all_granted alloc"
    then have "neighborhood_calculator_get_cells alloc hp (Some g) N
                 = Returns (None, ERROR_MEMORY_ALLOCATION)"
      using d v by (simp add: neighborhood_calculator_get_cells_def)
    then show ?thesis using f by blast
  next
    assume cr: "position_set_create alloc = Some ?e"
    show ?thesis
    proof (cases "cs = []")
      case True
      then have "neighborhood_calculator_get_cells alloc hp (Some g) N
                   = Returns (Some ?e, ERROR_NONE)"
        using d v cz cr by (simp add: neighborhood_calculator_get_cells_def)
      then show ?thesis using True by simp
    next
      case ne: False
      show ?thesis
      proof (cases "(height g - 1) + (width g - 1) \<le>s N")
        case True
        from all_cells_rows_result[of alloc g 0 ?e] obtain s where s:
          "all_cells_rows alloc g 0 (Some ?e) = Some s"
          "grows_by alloc ?e {p. grid_is_valid_position (Some g) p} s"
          unfolding all_cells_set by blast
        have "neighborhood_calculator_get_cells alloc hp (Some g) N = Returns (Some s, ERROR_NONE)"
          using d v cz ne True s(1) cr by (simp add: neighborhood_calculator_get_cells_def)
        then show ?thesis using grows_by_from_empty[OF s(2)] ne True by simp
      next
        case False
        then have "sint N < sint ((height g - 1) + (width g - 1))" by (simp add: sle_sint)
        then have Nb: "0 \<le> sint N" "sint N < 2147483647"
          using N sint_bounds[of "(height g - 1) + (width g - 1)"] by (auto simp: sle_sint)
        have z: "0 \<le> sint (0::cint)" by simp
        from positive_cells_loop_result[OF wf valid Nb z, of alloc ?e] show ?thesis
        proof
          assume f: "positive_cells_loop alloc hp g N 0 (Some ?e)
                       = Returns (None, ERROR_MEMORY_ALLOCATION) \<and> \<not> all_granted alloc"
          then have "neighborhood_calculator_get_cells alloc hp (Some g) N
                       = Returns (None, ERROR_MEMORY_ALLOCATION)"
            using d v cz ne False cr by (simp add: neighborhood_calculator_get_cells_def)
          then show ?thesis using f by blast
        next
          assume "\<exists>s'. positive_cells_loop alloc hp g N 0 (Some ?e) = Returns (Some s', ERROR_NONE)
              \<and> grows_by alloc ?e
                   {p. grid_is_valid_position (Some g) p
                       \<and> (\<exists>c\<in>set (drop (nat (sint (0::cint))) cs). manhattan p c \<le> sint N)} s'"
          then obtain s where s:
            "positive_cells_loop alloc hp g N 0 (Some ?e) = Returns (Some s, ERROR_NONE)"
            "grows_by alloc ?e
               {p. grid_is_valid_position (Some g) p \<and> (\<exists>c\<in>set cs. manhattan p c \<le> sint N)} s"
            by auto
          have "neighborhood_calculator_get_cells alloc hp (Some g) N
                  = Returns (Some s, ERROR_NONE)"
            using d v cz ne False s(1) cr by (simp add: neighborhood_calculator_get_cells_def)
          then show ?thesis using grows_by_from_empty[OF s(2)] ne False by simp
        qed
      qed
    qed
  qed
qed

lemma get_cells_success:
  assumes wf: "grid_cells hp g = Some cs"
      and valid: "\<forall>c\<in>set cs. grid_is_valid_position (Some g) c"
      and dims: "0 <s height g" "0 <s width g"
      and N: "0 \<le>s N"
      and granted: "all_granted alloc"
  shows "\<exists>s. neighborhood_calculator_get_cells alloc hp (Some g) N = Returns (Some s, ERROR_NONE)
      \<and> distinct (positions s)
      \<and> set (positions s) =
          (if cs = [] then {}
           else if (height g - 1) + (width g - 1) \<le>s N
           then {p. grid_is_valid_position (Some g) p}
           else {p. grid_is_valid_position (Some g) p \<and> (\<exists>c\<in>set cs. manhattan p c \<le> sint N)})"
  using get_cells_validated[OF wf valid dims N, of alloc] granted by blast

lemma get_cells_invalid_dimensions:
  assumes "grid = None \<or> height (the grid) \<le>s 0 \<or> width (the grid) \<le>s 0"
  shows "neighborhood_calculator_get_cells alloc hp grid N
           = Returns (None, ERROR_INVALID_GRID_DIMENSIONS)"
  using assms by (cases grid) (auto simp: neighborhood_calculator_get_cells_def)

lemma get_cells_invalid_threshold:
  assumes "0 <s height g" "0 <s width g" "N <s 0"
  shows "neighborhood_calculator_get_cells alloc hp (Some g) N
           = Returns (None, ERROR_INVALID_DISTANCE_THRESHOLD)"
  using assms by (auto simp: neighborhood_calculator_get_cells_def sless_sint sle_sint)

lemma get_cells_out_of_bounds:
  assumes "grid_cells hp g = Some cs" "0 <s height g" "0 <s width g" "0 \<le>s N"
      and "\<exists>c\<in>set cs. \<not> grid_is_valid_position (Some g) c"
  shows "neighborhood_calculator_get_cells alloc hp (Some g) N
           = Returns (None, ERROR_POSITION_OUT_OF_BOUNDS)"
proof -
  have "grid_validate_positions hp (Some g) = Returns False"
    using validate_result[OF assms(1)] assms(5) by (simp add: list_all_iff)
  then show ?thesis using assms(2-4)
    by (auto simp: neighborhood_calculator_get_cells_def sless_sint sle_sint)
qed

lemma get_cells_returns:
  assumes "grid_cells hp g = Some cs"
  shows "\<exists>cells ec. neighborhood_calculator_get_cells alloc hp (Some g) N = Returns (cells, ec)
           \<and> (cells = None \<longleftrightarrow> ec \<noteq> ERROR_NONE)
           \<and> (\<forall>s. cells = Some s \<longrightarrow> distinct (positions s)
                  \<and> set (positions s) \<subseteq> {p. grid_is_valid_position (Some g) p})
           \<and> (ec = ERROR_MEMORY_ALLOCATION \<longrightarrow> \<not> all_granted alloc)"
proof (cases "0 <s height g \<and> 0 <s width g")
  case False
  then have "height g \<le>s 0 \<or> width g \<le>s 0" by (auto simp: sless_sint sle_sint)
  then show ?thesis using get_cells_invalid_dimensions[of "Some g" alloc hp N] by simp
next
  case dims: True
  show ?thesis
  proof (cases "0 \<le>s N")
    case False
    then have "N <s 0" by (auto simp: sless_sint sle_sint)
    then show ?thesis using get_cells_invalid_threshold[of g N alloc hp] dims by simp
  next
    case N: True
    show ?thesis
    proof (cases "\<forall>c\<in>set cs. grid_is_valid_position (Some g) c")
      case False
      then show ?thesis using get_cells_out_of_bounds[OF assms _ _ N, of alloc] dims by simp
    next
      case True
      have dh: "0 <s height g" and dw: "0 <s width g" using dims by simp_all
      from get_cells_validated[OF assms True dh dw N, of alloc] show ?thesis
      proof
        assume "neighborhood_calculator_get_cells alloc hp (Some g) N
            = Returns (None, ERROR_MEMORY_ALLOCATION) \<and> \<not> all_granted alloc"
        then show ?thesis by simp
      next
        assume "\<exists>s. neighborhood_calculator_get_cells alloc hp (Some g) N = Returns (Some s, ERROR_NONE)
            \<and> distinct (positions s)
            \<and> set (positions s) \<subseteq>
                (if cs = [] then {}
                 else if (height g - 1) + (width g - 1) \<le>s N
                 then {p. grid_is_valid_position (Some g) p}
                 else {p. grid_is_valid_position (Some g) p
                          \<and> (\<exists>c\<in>set cs. manhattan p c \<le> sint N)})
            \<and> (all_granted alloc \<longrightarrow> set (positions s) =
                (if cs = [] then {}
                 else if (height g - 1) + (width g - 1) \<le>s N
                 then {p. grid_is_valid_position (Some g) p}
                 else {p. grid_is_valid_position (Some g) p
                          \<and> (\<exists>c\<in>set cs. manhattan p c \<le> sint N)}))"
        then obtain s where
          "neighborhood_calculator_get_cells alloc hp (Some g) N = Returns (Some s, ERROR_NONE)"
          "distinct (positions s)"
          "set (positions s) \<subseteq> {p. grid_is_valid_position (Some g) p}"
          by (auto split: if_splits)
        then show ?thesis by simp
      qed
    qed
  qed
qed

section \<open>PositionSet: the claim\<close>

lemma unique_positions_distinct: "unique_positions s \<longleftrightarrow> distinct (positions s)"
  by (auto simp: unique_positions_def distinct_conv_nth position_equals_iff)

text \<open>
  Claim C8, as amended. A set that \<^verbatim>\<open>position_set_create\<close> returns is empty and holds no position
  twice, and one is returned when every allocation is granted. On a set that holds no
  position twice, \<^verbatim>\<open>position_set_add\<close> returns true exactly when the position was not a
  member and the array had room or its reallocation to twice the capacity was granted; the
  set then grows by that one position and still holds none twice; otherwise the set is left
  as it was. \<^verbatim>\<open>position_set_clear\<close> leaves an empty set.
\<close>

theorem position_set_uniqueness:
  "(\<forall>s0. position_set_create alloc = Some s0 \<longrightarrow>
        unique_positions s0 \<and> position_set_size (Some s0) = 0)
   \<and> (all_granted alloc \<longrightarrow> position_set_create alloc \<noteq> None)
   \<and> (unique_positions s \<longrightarrow>
        (\<exists>s'. position_set_add alloc (Some s) pos
                 = (\<not> position_set_contains (Some s) pos
                      \<and> (position_set_size (Some s) < capacity s
                           \<or> alloc (capacity s * 2 * sizeof_Position)), Some s')
            \<and> unique_positions s'
            \<and> (if fst (position_set_add alloc (Some s) pos)
               then position_set_size (Some s') = position_set_size (Some s) + 1
                    \<and> (\<forall>q. position_set_contains (Some s') q \<longleftrightarrow>
                              q = pos \<or> position_set_contains (Some s) q)
               else s' = s)))
   \<and> (\<exists>s'. position_set_clear (Some s) = Some s' \<and> unique_positions s'
            \<and> position_set_size (Some s') = 0)"
proof (intro conjI impI allI)
  fix s0 assume "position_set_create alloc = Some s0"
  then have "s0 = \<lparr>positions = [], capacity = INITIAL_CAPACITY\<rparr>"
    using position_set_create_cases[of alloc] by auto
  then show "unique_positions s0" "position_set_size (Some s0) = 0"
    by (simp_all add: unique_positions_distinct position_set_size_def)
next
  assume "all_granted alloc"
  then show "position_set_create alloc \<noteq> None"
    using position_set_create_cases[of alloc] by auto
next
  assume u: "unique_positions s"
  from position_set_add_cases[of alloc s pos]
  show "\<exists>s'. position_set_add alloc (Some s) pos
                 = (\<not> position_set_contains (Some s) pos
                      \<and> (position_set_size (Some s) < capacity s
                           \<or> alloc (capacity s * 2 * sizeof_Position)), Some s')
            \<and> unique_positions s'
            \<and> (if fst (position_set_add alloc (Some s) pos)
               then position_set_size (Some s') = position_set_size (Some s) + 1
                    \<and> (\<forall>q. position_set_contains (Some s') q \<longleftrightarrow>
                              q = pos \<or> position_set_contains (Some s) q)
               else s' = s)"
  proof
    assume "position_set_add alloc (Some s) pos = (False, Some s)
      \<and> (pos \<in> set (positions s)
          \<or> (capacity s \<le> length (positions s) \<and> \<not> alloc (capacity s * 2 * sizeof_Position)))"
    then show ?thesis using u
      by (auto simp: position_set_contains_Some position_set_size_def)
  next
    assume "\<exists>s'. position_set_add alloc (Some s) pos = (True, Some s')
          \<and> positions s' = positions s @ [pos] \<and> pos \<notin> set (positions s)
          \<and> (length (positions s) < capacity s \<or> alloc (capacity s * 2 * sizeof_Position))"
    then obtain s' where s': "position_set_add alloc (Some s) pos = (True, Some s')"
       "positions s' = positions s @ [pos]" "pos \<notin> set (positions s)"
       "length (positions s) < capacity s \<or> alloc (capacity s * 2 * sizeof_Position)"
      by blast
    then show ?thesis using u
      by (auto simp: position_set_contains_Some unique_positions_distinct position_set_size_def)
  qed
next
  show "\<exists>s'. position_set_clear (Some s) = Some s' \<and> unique_positions s'
            \<and> position_set_size (Some s') = 0"
    by (simp add: position_set_clear_def unique_positions_distinct position_set_size_def)
qed

theorem position_set_uniqueness_witness:
  "unique_positions \<lparr>positions = [position_create 1 2], capacity = 16\<rparr>
   \<and> position_set_create grant_all \<noteq> None
   \<and> position_set_add grant_all (Some \<lparr>positions = [position_create 1 2], capacity = 16\<rparr>)
         (position_create 1 2)
       = (False, Some \<lparr>positions = [position_create 1 2], capacity = 16\<rparr>)
   \<and> fst (position_set_add grant_all (Some \<lparr>positions = [position_create 1 2], capacity = 16\<rparr>)
            (position_create 3 4))
   \<and> position_set_size (snd (position_set_add grant_all
            (Some \<lparr>positions = [position_create 1 2], capacity = 16\<rparr>) (position_create 3 4))) = 2"
proof -
  let ?s = "\<lparr>positions = [position_create 1 2], capacity = 16\<rparr>"
  have u: "unique_positions ?s" by (simp add: unique_positions_def)
  have c1: "position_set_contains (Some ?s) (position_create 1 2)"
    by (simp add: position_set_contains_def position_equals_def)
  have c2: "\<not> position_set_contains (Some ?s) (position_create 3 4)"
    by (simp add: position_set_contains_def position_equals_def position_create_def)
  have sz: "position_set_size (Some ?s) = 1" by (simp add: position_set_size_def)
  note t = position_set_uniqueness[of grant_all ?s]
  from t[of "position_create 1 2"] grant_all_granted
  have cr: "position_set_create grant_all \<noteq> None" by blast
  from t[of "position_create 1 2"] u c1
  have a: "position_set_add grant_all (Some ?s) (position_create 1 2) = (False, Some ?s)"
    by auto
  from t[of "position_create 3 4"] u c2 sz
  obtain s' where "position_set_add grant_all (Some ?s) (position_create 3 4) = (True, Some s')"
     "position_set_size (Some s') = 2" by auto
  then show ?thesis using u a cr by simp
qed

text \<open>
  Claim C8 as written fails when \<^verbatim>\<open>realloc\<close> fails. With an allocator that grants up to
  128 bytes, \<^verbatim>\<open>position_set_create\<close> and sixteen adds fill a set to its capacity; the add
  of a seventeenth position, which is not a member, asks for 256 bytes, returns false and
  leaves the set as it was.
\<close>

theorem position_set_add_realloc_fails:
  "add_neighborhood (grant_up_to 128) (positions full_set) (position_set_create (grant_up_to 128))
     = Some full_set
   \<and> \<not> position_set_contains (Some full_set) (position_create 0 16)
   \<and> position_set_add (grant_up_to 128) (Some full_set) (position_create 0 16)
       = (False, Some full_set)"
  by code_simp

section \<open>Grid: construction\<close>

lemma grid_create_invalid:
  assumes "\<not> (0 <s h \<and> 0 <s w)"
  shows "grid_create alloc hp h w buf n = Returns (hp, None)"
  using assms by (auto simp: grid_create_def sless_sint sle_sint)

lemma grid_create_refused:
  assumes "\<not> alloc sizeof_Grid
           \<or> (0 <s n \<and> buf \<noteq> None \<and> \<not> alloc (nat (sint n) * sizeof_Position))"
  shows "grid_create alloc hp h w buf n = Returns (hp, None)"
  using assms by (auto simp: grid_create_def Let_def)

lemma grid_create_no_copy:
  assumes "0 <s h" "0 <s w" "alloc sizeof_Grid" "\<not> (0 <s n \<and> buf \<noteq> None)"
  shows "grid_create alloc hp h w buf n =
           Returns (hp, Some \<lparr>height = h, width = w, positive_cells = None, positive_cell_count = n\<rparr>)"
  using assms by (auto simp: grid_create_def sless_sint sle_sint Let_def)

lemma grid_create_copy:
  assumes "0 <s h" "0 <s w" "alloc sizeof_Grid" "0 <s n"
      and "alloc (nat (sint n) * sizeof_Position)"
      and "a < length hp" "nat (sint n) \<le> length (hp ! a)"
  shows "grid_create alloc hp h w (Some a) n =
           Returns (hp @ [take (nat (sint n)) (hp ! a)],
                    Some \<lparr>height = h, width = w, positive_cells = Some (length hp),
                          positive_cell_count = n\<rparr>)"
  using assms by (auto simp: grid_create_def sless_sint sle_sint Let_def copy_positions_def)

text \<open>
  Claim C6, as amended. With a buffer that can be read, \<^verbatim>\<open>grid_create\<close> returns a grid
  exactly when the height and the width are positive and its allocations are granted: the one of the
  \<^verbatim>\<open>Grid\<close> and, when the count is positive and the buffer is not \<^verbatim>\<open>NULL\<close>, the one of the
  copy. The positive cells play no part in this. The grid stores the height, the width and
  the count it was given, and reads its cells from a block of its own: they are the
  caller's cells, and stay so when the caller's block is overwritten.
\<close>

theorem grid_create_succeeds_iff:
  assumes "buffer_readable hp buf n"
  shows "if 0 <s h \<and> 0 <s w \<and> alloc sizeof_Grid
            \<and> (0 <s n \<and> buf \<noteq> None \<longrightarrow> alloc (nat (sint n) * sizeof_Position))
         then \<exists>hp' g. grid_create alloc hp h w buf n = Returns (hp', Some g)
                \<and> height g = h \<and> width g = w \<and> positive_cell_count g = n
                \<and> (\<forall>a i. buf = Some a \<and> 0 \<le>s i \<and> i <s n \<longrightarrow>
                      read_cell hp' g i = Some (hp ! a ! nat (sint i))
                      \<and> (\<forall>block. read_cell (hp'[a := block]) g i = Some (hp ! a ! nat (sint i))))
         else grid_create alloc hp h w buf n = Returns (hp, None)"
proof (cases "0 <s h \<and> 0 <s w")
  case False
  then show ?thesis using grid_create_invalid[OF False, of alloc hp buf n] by auto
next
  case dims: True
  show ?thesis
  proof (cases "alloc sizeof_Grid
            \<and> (0 <s n \<and> buf \<noteq> None \<longrightarrow> alloc (nat (sint n) * sizeof_Position))")
    case False
    then have "grid_create alloc hp h w buf n = Returns (hp, None)"
      by (intro grid_create_refused) blast
    then show ?thesis using False by auto
  next
    case granted: True
    show ?thesis
    proof (cases "0 <s n \<and> buf \<noteq> None")
      case False
      have "\<And>i. \<not> (buf \<noteq> None \<and> 0 \<le>s i \<and> i <s n)"
        using False by (auto simp: sless_sint sle_sint)
      then show ?thesis
        using dims granted grid_create_no_copy[OF _ _ _ False, of h w alloc hp] by auto
    next
      case True
      then obtain a where a: "buf = Some a" by auto
      from True a assms have r: "a < length hp" "nat (sint n) \<le> length (hp ! a)"
        by (auto simp: buffer_readable_def sless_sint)
      let ?g = "\<lparr>height = h, width = w, positive_cells = Some (length hp), positive_cell_count = n\<rparr>"
      let ?hp' = "hp @ [take (nat (sint n)) (hp ! a)]"
      have c: "grid_create alloc hp h w buf n = Returns (?hp', Some ?g)"
        using grid_create_copy[OF _ _ _ _ _ r, of h w alloc] dims True a granted by simp
      have rd: "read_cell ?hp' ?g i = Some (hp ! a ! nat (sint i))
              \<and> (\<forall>block. read_cell (?hp'[a := block]) ?g i = Some (hp ! a ! nat (sint i)))"
        if "0 \<le>s i" "i <s n" for i
      proof -
        have "nat (sint i) < nat (sint n)" using that by (simp add: sless_sint sle_sint)
        then show ?thesis using r that
          by (auto simp: read_cell_def sle_sint nth_append list_update_append)
      qed
      show ?thesis using dims c rd a granted by auto
    qed
  qed
qed

theorem grid_create_succeeds_iff_witness:
  "buffer_readable [[position_create (- 1) 100]] (Some 0) 1
   \<and> (\<exists>hp' g. grid_create grant_all [[position_create (- 1) 100]] 2 2 (Some 0) 1
                  = Returns (hp', Some g)
          \<and> height g = 2 \<and> width g = 2 \<and> positive_cell_count g = 1
          \<and> read_cell hp' g 0 = Some (position_create (- 1) 100)
          \<and> read_cell (hp'[0 := [position_create 0 0]]) g 0 = Some (position_create (- 1) 100)
          \<and> \<not> grid_is_valid_position (Some g) (position_create (- 1) 100))
   \<and> grid_create grant_all [[position_create (- 1) 100]] 0 2 (Some 0) 1
       = Returns ([[position_create (- 1) 100]], None)"
proof -
  let ?hp = "[[position_create (- 1) 100]]"
  have b: "buffer_readable ?hp (Some 0) 1" by (simp add: buffer_readable_def)
  have d: "(0::cint) <s 2 \<and> (0::cint) <s 2" "\<not> ((0::cint) <s 0 \<and> (0::cint) <s 2)"
    by (simp_all add: sless_sint)
  have i: "(0::cint) \<le>s 0" "(0::cint) <s 1" by (simp_all add: sless_sint sle_sint)
  have al: "grant_all sizeof_Grid" "grant_all (nat (sint (1::cint)) * sizeof_Position)"
    by (simp_all add: grant_all_def)
  from grid_create_succeeds_iff[OF b, of 2 2 grant_all] d(1) al obtain hp' g where g:
    "grid_create grant_all ?hp 2 2 (Some 0) 1 = Returns (hp', Some g)"
    "height g = 2" "width g = 2" "positive_cell_count g = 1"
    "\<forall>a i. Some (0::nat) = Some a \<and> 0 \<le>s i \<and> i <s 1 \<longrightarrow>
        read_cell hp' g i = Some (?hp ! a ! nat (sint i))
        \<and> (\<forall>block. read_cell (hp'[a := block]) g i = Some (?hp ! a ! nat (sint i)))"
    by auto
  from g(5) i have r: "read_cell hp' g 0 = Some (position_create (- 1) 100)"
    "read_cell (hp'[0 := [position_create 0 0]]) g 0 = Some (position_create (- 1) 100)"
    by auto
  have v: "\<not> grid_is_valid_position (Some g) (position_create (- 1) 100)"
    by (simp add: grid_is_valid_position_def position_create_def sle_sint sless_sint)
  from grid_create_succeeds_iff[OF b, of 0 2 grant_all] d(2)
  have n: "grid_create grant_all ?hp 0 2 (Some 0) 1 = Returns (?hp, None)" by simp
  show ?thesis using b g(1-4) r v n by blast
qed

text \<open>
  Claim C6 as written fails when \<^verbatim>\<open>malloc\<close> fails. A 2 x 2 grid is asked for with 200
  positive cells; the allocator grants up to 1024 bytes, the copy needs 1600, and no grid is
  returned although the height and the width are positive.
\<close>

theorem grid_create_malloc_fails:
  "(0::cint) <s 2
   \<and> buffer_readable [replicate 200 (position_create 0 0)] (Some 0) 200
   \<and> grid_create (grant_up_to 1024) [replicate 200 (position_create 0 0)] 2 2 (Some 0) 200
       = Returns ([replicate 200 (position_create 0 0)], None)"
  by code_simp

section \<open>Grid: reads of the positive cells\<close>

lemma grid_create_cells:
  assumes "0 <s h" "0 <s w" "buffer_holds hp buf n"
  shows "(grid_create alloc hp h w buf n = Returns (hp, None) \<and> \<not> all_granted alloc)
       \<or> (\<exists>hp' g cs. grid_create alloc hp h w buf n = Returns (hp', Some g)
          \<and> height g = h \<and> width g = w \<and> grid_cells hp' g = Some cs)"
proof (cases "alloc sizeof_Grid
            \<and> (0 <s n \<and> buf \<noteq> None \<longrightarrow> alloc (nat (sint n) * sizeof_Position))")
  case False
  then have "grid_create alloc hp h w buf n = Returns (hp, None)"
    by (intro grid_create_refused) blast
  moreover have "\<not> all_granted alloc" using False all_grantedD[of alloc] by blast
  ultimately show ?thesis by blast
next
  case granted: True
  show ?thesis
  proof (cases "0 <s n \<and> buf \<noteq> None")
    case False
    then have "sint n = 0" using assms(3) by (auto simp: buffer_holds_def sless_sint)
    then show ?thesis using grid_create_no_copy[OF assms(1,2) _ False, of alloc hp] granted
      by (simp add: grid_cells_def)
  next
    case True
    then obtain a where a: "buf = Some a" by auto
    from True a assms(3) have r: "a < length hp" "nat (sint n) \<le> length (hp ! a)"
      by (auto simp: buffer_holds_def sless_sint)
    have "0 < sint n" using True by (simp add: sless_sint)
    then show ?thesis using grid_create_copy[OF assms(1,2) _ _ _ r, of alloc] True a r granted
      by (simp add: grid_cells_def)
  qed
qed

lemma validate_null_cells:
  assumes "positive_cells g = None" "0 <s positive_cell_count g"
  shows "grid_validate_positions hp (Some g) = InvalidRead"
  using assms
  by (simp add: grid_validate_positions_def read_cell_def grid_validate_positions_loop.simps[of hp g 0])

text \<open>
  Claim C10. When the caller's buffer holds at least \<open>n >= 0\<close> positions (\<^verbatim>\<open>NULL\<close> holding
  none), what \<^verbatim>\<open>grid_create\<close> returns is read inside its array only:
  \<^verbatim>\<open>grid_validate_positions\<close> and \<^verbatim>\<open>neighborhood_calculator_get_cells\<close> return, and never
  end in \<open>InvalidRead\<close>, whether the allocations are granted or not; a grid is returned when
  they all are. Every grid that \<^verbatim>\<open>grid_create\<close> returns stores the count it was given, and
  has an array exactly when the count is positive and the buffer is not \<^verbatim>\<open>NULL\<close>. A
  \<^verbatim>\<open>NULL\<close> buffer with a positive count does not meet the precondition, and the grid built
  from it makes \<^verbatim>\<open>grid_validate_positions\<close> read through \<^verbatim>\<open>NULL\<close>.
\<close>

theorem grid_reads_in_bounds:
  "(0 <s h \<and> 0 <s w \<and> buffer_holds hp buf n \<longrightarrow>
      (\<exists>hp' grid. grid_create alloc hp h w buf n = Returns (hp', grid)
         \<and> (all_granted alloc \<longrightarrow> grid \<noteq> None)
         \<and> (\<exists>b. grid_validate_positions hp' grid = Returns b)
         \<and> (\<exists>r. neighborhood_calculator_get_cells alloc hp' grid N = Returns r)))
   \<and> (grid_create alloc hp h w buf n = Returns (hp2, Some g2) \<longrightarrow>
        positive_cell_count g2 = n
        \<and> (positive_cells g2 \<noteq> None \<longleftrightarrow> 0 <s n \<and> buf \<noteq> None))
   \<and> (0 <s h \<and> 0 <s w \<and> 0 <s n \<and> alloc sizeof_Grid \<longrightarrow>
        \<not> buffer_holds hp None n
        \<and> (\<exists>g. grid_create alloc hp h w None n = Returns (hp, Some g)
              \<and> positive_cells g = None \<and> positive_cell_count g = n
              \<and> grid_validate_positions hp (Some g) = InvalidRead))"
proof (intro conjI impI)
  assume a: "0 <s h \<and> 0 <s w \<and> buffer_holds hp buf n"
  then have "(grid_create alloc hp h w buf n = Returns (hp, None) \<and> \<not> all_granted alloc)
       \<or> (\<exists>hp' g cs. grid_create alloc hp h w buf n = Returns (hp', Some g)
          \<and> height g = h \<and> width g = w \<and> grid_cells hp' g = Some cs)"
    using grid_create_cells[of h w hp buf n alloc] by blast
  then show "\<exists>hp' grid. grid_create alloc hp h w buf n = Returns (hp', grid)
         \<and> (all_granted alloc \<longrightarrow> grid \<noteq> None)
         \<and> (\<exists>b. grid_validate_positions hp' grid = Returns b)
         \<and> (\<exists>r. neighborhood_calculator_get_cells alloc hp' grid N = Returns r)"
  proof
    assume f: "grid_create alloc hp h w buf n = Returns (hp, None) \<and> \<not> all_granted alloc"
    have "grid_validate_positions hp None = Returns False"
      by (simp add: grid_validate_positions_def)
    moreover have "neighborhood_calculator_get_cells alloc hp None N
                     = Returns (None, ERROR_INVALID_GRID_DIMENSIONS)"
      by (intro get_cells_invalid_dimensions) simp
    ultimately show ?thesis using f by auto
  next
    assume "\<exists>hp' g cs. grid_create alloc hp h w buf n = Returns (hp', Some g)
          \<and> height g = h \<and> width g = w \<and> grid_cells hp' g = Some cs"
    then obtain hp' g cs where g: "grid_create alloc hp h w buf n = Returns (hp', Some g)"
      "grid_cells hp' g = Some cs" by blast
    have "\<exists>b. grid_validate_positions hp' (Some g) = Returns b"
      using validate_result[OF g(2)] by simp
    moreover have "\<exists>r. neighborhood_calculator_get_cells alloc hp' (Some g) N = Returns r"
      using get_cells_returns[OF g(2), of alloc N] by blast
    ultimately show ?thesis using g(1) by auto
  qed
next
  assume "grid_create alloc hp h w buf n = Returns (hp2, Some g2)"
  then show "positive_cell_count g2 = n"
    by (auto simp: grid_create_def Let_def split: if_splits option.splits)
next
  assume "grid_create alloc hp h w buf n = Returns (hp2, Some g2)"
  then show "positive_cells g2 \<noteq> None \<longleftrightarrow> 0 <s n \<and> buf \<noteq> None"
    by (auto simp: grid_create_def Let_def split: if_splits option.splits)
next
  assume "0 <s h \<and> 0 <s w \<and> 0 <s n \<and> alloc sizeof_Grid"
  then show "\<not> buffer_holds hp None n" by (simp add: buffer_holds_def sless_sint)
next
  assume a: "0 <s h \<and> 0 <s w \<and> 0 <s n \<and> alloc sizeof_Grid"
  let ?g = "\<lparr>height = h, width = w, positive_cells = None, positive_cell_count = n\<rparr>"
  have "grid_create alloc hp h w None n = Returns (hp, Some ?g)"
    using a by (intro grid_create_no_copy) simp_all
  moreover have "grid_validate_positions hp (Some ?g) = InvalidRead"
    using a by (intro validate_null_cells) simp_all
  ultimately show "\<exists>g. grid_create alloc hp h w None n = Returns (hp, Some g)
              \<and> positive_cells g = None \<and> positive_cell_count g = n
              \<and> grid_validate_positions hp (Some g) = InvalidRead"
    by simp
qed

theorem grid_reads_in_bounds_witness:
  "buffer_holds [[position_create 1 1, position_create 0 2]] (Some 0) 2
   \<and> (\<exists>hp' grid. grid_create grant_all [[position_create 1 1, position_create 0 2]] 3 3 (Some 0) 2
                  = Returns (hp', grid) \<and> grid \<noteq> None
         \<and> (\<exists>b. grid_validate_positions hp' grid = Returns b)
         \<and> (\<exists>r. neighborhood_calculator_get_cells grant_all hp' grid 1 = Returns r))
   \<and> grid_validate_positions []
        (Some \<lparr>height = 3, width = 3, positive_cells = None, positive_cell_count = 2\<rparr>)
       = InvalidRead"
proof -
  let ?hp = "[[position_create 1 1, position_create 0 2]]"
  have b: "buffer_holds ?hp (Some 0) 2" by (simp add: buffer_holds_def)
  have d: "(0::cint) <s 3" "(0::cint) <s 2" by (simp_all add: sless_sint)
  have al: "grant_all sizeof_Grid" by (simp add: grant_all_def)
  note t = grid_reads_in_bounds[of 3 3 ?hp "Some 0" 2 grant_all 1]
  note u = grid_reads_in_bounds[of 3 3 "[]" None 2 grant_all 1]
  have g: "grid_create grant_all [] 3 3 None 2 =
      Returns ([], Some \<lparr>height = 3, width = 3, positive_cells = None, positive_cell_count = 2\<rparr>)"
    by code_simp
  from u d g al have "grid_validate_positions []
        (Some \<lparr>height = 3, width = 3, positive_cells = None, positive_cell_count = 2\<rparr>) = InvalidRead"
    by auto
  then show ?thesis using t b d grant_all_granted by blast
qed

section \<open>NeighborhoodCalculator: validation and count\<close>

lemma count_of_get_cells:
  assumes "neighborhood_calculator_get_cells alloc hp grid N = Returns (cells, ec)"
  shows "neighborhood_calculator_count alloc hp grid N =
           Returns (if cells = None then - 1 else word_of_nat (position_set_size cells), ec)"
  using assms by (simp add: neighborhood_calculator_count_def)

lemma valid_dims:
  assumes "grid_is_valid_position (Some g) c"
  shows "0 <s height g" "0 <s width g"
  using assms by (auto simp: valid_iff sless_sint)

lemma size_card:
  assumes "distinct (positions s)"
  shows "position_set_size (Some s) = card (set (positions s))"
  using assms by (simp add: position_set_size_def distinct_card)

lemma get_cells_saturated:
  assumes wf: "grid_cells hp g = Some cs" "cs \<noteq> []"
      and valid: "\<forall>c\<in>set cs. grid_is_valid_position (Some g) c"
      and N: "0 \<le>s N" "(height g - 1) + (width g - 1) \<le>s N"
      and granted: "all_granted alloc"
  shows "\<exists>s. neighborhood_calculator_get_cells alloc hp (Some g) N = Returns (Some s, ERROR_NONE)
      \<and> set (positions s) = {p. grid_is_valid_position (Some g) p}
      \<and> position_set_size (Some s) = nat (sint (height g)) * nat (sint (width g))"
proof -
  obtain c where "c \<in> set cs" using wf(2) by (cases cs) auto
  then have d: "0 <s height g" "0 <s width g" using valid valid_dims by blast+
  from get_cells_success[OF wf(1) valid d N(1) granted] wf(2) N(2) obtain s where s:
     "neighborhood_calculator_get_cells alloc hp (Some g) N = Returns (Some s, ERROR_NONE)"
     "distinct (positions s)" "set (positions s) = {p. grid_is_valid_position (Some g) p}"
    by auto
  then show ?thesis using size_card[OF s(2)] card_valid[of g] by simp
qed

lemma one_cell_grid_cells: "grid_cells one_cell_heap (one_cell_grid h w) = Some [position_create 0 0]"
  by (simp add: grid_cells_def one_cell_heap_def one_cell_grid_def)

lemma one_cell_grid_valid:
  assumes "0 <s h" "0 <s w"
  shows "\<forall>c\<in>set [position_create 0 0]. grid_is_valid_position (Some (one_cell_grid h w)) c"
  using assms by (simp add: valid_iff one_cell_grid_def position_create_def sless_sint)

text \<open>
  Claim C3. The checks of \<^verbatim>\<open>neighborhood_calculator_get_cells\<close>, and so of
  \<^verbatim>\<open>neighborhood_calculator_count\<close>, come in a fixed order. A \<^verbatim>\<open>NULL\<close> grid, or a height or
  width that is not positive, gives \<^verbatim>\<open>ERROR_INVALID_GRID_DIMENSIONS\<close> whatever the threshold and
  the cells are. With positive dimensions a negative threshold gives
  \<^verbatim>\<open>ERROR_INVALID_DISTANCE_THRESHOLD\<close> whatever the cells are. With positive dimensions and a
  threshold that is not negative, the call gives \<^verbatim>\<open>ERROR_POSITION_OUT_OF_BOUNDS\<close> exactly when
  some stored positive cell is out of bounds; otherwise it gives a set with
  \<^verbatim>\<open>ERROR_NONE\<close>, or no set and \<^verbatim>\<open>ERROR_MEMORY_ALLOCATION\<close>, which needs an allocation that
  was not granted.
\<close>

theorem validation_order:
  "neighborhood_calculator_get_cells alloc hp None N = Returns (None, ERROR_INVALID_GRID_DIMENSIONS)
   \<and> neighborhood_calculator_count alloc hp None N = Returns (- 1, ERROR_INVALID_GRID_DIMENSIONS)
   \<and> (height g \<le>s 0 \<or> width g \<le>s 0 \<longrightarrow>
        neighborhood_calculator_get_cells alloc hp (Some g) N = Returns (None, ERROR_INVALID_GRID_DIMENSIONS)
        \<and> neighborhood_calculator_count alloc hp (Some g) N = Returns (- 1, ERROR_INVALID_GRID_DIMENSIONS))
   \<and> (0 <s height g \<and> 0 <s width g \<and> N <s 0 \<longrightarrow>
        neighborhood_calculator_get_cells alloc hp (Some g) N
          = Returns (None, ERROR_INVALID_DISTANCE_THRESHOLD)
        \<and> neighborhood_calculator_count alloc hp (Some g) N
          = Returns (- 1, ERROR_INVALID_DISTANCE_THRESHOLD))
   \<and> (0 <s height g \<and> 0 <s width g \<and> 0 \<le>s N \<and> grid_cells hp g = Some cs \<longrightarrow>
        (if \<exists>c\<in>set cs. \<not> grid_is_valid_position (Some g) c
         then neighborhood_calculator_get_cells alloc hp (Some g) N
                = Returns (None, ERROR_POSITION_OUT_OF_BOUNDS)
              \<and> neighborhood_calculator_count alloc hp (Some g) N
                = Returns (- 1, ERROR_POSITION_OUT_OF_BOUNDS)
         else (neighborhood_calculator_get_cells alloc hp (Some g) N
                  = Returns (None, ERROR_MEMORY_ALLOCATION)
                \<and> neighborhood_calculator_count alloc hp (Some g) N
                  = Returns (- 1, ERROR_MEMORY_ALLOCATION)
                \<and> \<not> all_granted alloc)
              \<or> (\<exists>s. neighborhood_calculator_get_cells alloc hp (Some g) N
                       = Returns (Some s, ERROR_NONE)
                \<and> neighborhood_calculator_count alloc hp (Some g) N
                     = Returns (word_of_nat (position_set_size (Some s)), ERROR_NONE))))"
proof (intro conjI impI)
  show n: "neighborhood_calculator_get_cells alloc hp None N = Returns (None, ERROR_INVALID_GRID_DIMENSIONS)"
    by (rule get_cells_invalid_dimensions) simp
  show "neighborhood_calculator_count alloc hp None N = Returns (- 1, ERROR_INVALID_GRID_DIMENSIONS)"
    using count_of_get_cells[OF n] by simp
next
  assume a: "height g \<le>s 0 \<or> width g \<le>s 0"
  then show d: "neighborhood_calculator_get_cells alloc hp (Some g) N
      = Returns (None, ERROR_INVALID_GRID_DIMENSIONS)"
    by (intro get_cells_invalid_dimensions) simp
  show "neighborhood_calculator_count alloc hp (Some g) N = Returns (- 1, ERROR_INVALID_GRID_DIMENSIONS)"
    using count_of_get_cells[OF d] by simp
next
  assume a: "0 <s height g \<and> 0 <s width g \<and> N <s 0"
  then show d: "neighborhood_calculator_get_cells alloc hp (Some g) N
      = Returns (None, ERROR_INVALID_DISTANCE_THRESHOLD)"
    by (intro get_cells_invalid_threshold) simp_all
  show "neighborhood_calculator_count alloc hp (Some g) N = Returns (- 1, ERROR_INVALID_DISTANCE_THRESHOLD)"
    using count_of_get_cells[OF d] by simp
next
  assume a: "0 <s height g \<and> 0 <s width g \<and> 0 \<le>s N \<and> grid_cells hp g = Some cs"
  show "if \<exists>c\<in>set cs. \<not> grid_is_valid_position (Some g) c
         then neighborhood_calculator_get_cells alloc hp (Some g) N
                = Returns (None, ERROR_POSITION_OUT_OF_BOUNDS)
              \<and> neighborhood_calculator_count alloc hp (Some g) N
                = Returns (- 1, ERROR_POSITION_OUT_OF_BOUNDS)
         else (neighborhood_calculator_get_cells alloc hp (Some g) N
                  = Returns (None, ERROR_MEMORY_ALLOCATION)
                \<and> neighborhood_calculator_count alloc hp (Some g) N
                  = Returns (- 1, ERROR_MEMORY_ALLOCATION)
                \<and> \<not> all_granted alloc)
              \<or> (\<exists>s. neighborhood_calculator_get_cells alloc hp (Some g) N
                       = Returns (Some s, ERROR_NONE)
                \<and> neighborhood_calculator_count alloc hp (Some g) N
                     = Returns (word_of_nat (position_set_size (Some s)), ERROR_NONE))"
  proof (cases "\<exists>c\<in>set cs. \<not> grid_is_valid_position (Some g) c")
    case True
    have d: "neighborhood_calculator_get_cells alloc hp (Some g) N
                = Returns (None, ERROR_POSITION_OUT_OF_BOUNDS)"
      using a True by (intro get_cells_out_of_bounds) simp_all
    show ?thesis using True d count_of_get_cells[OF d] by simp
  next
    case False
    then have v: "\<forall>c\<in>set cs. grid_is_valid_position (Some g) c" by simp
    have dh: "0 <s height g" and dw: "0 <s width g" and N: "0 \<le>s N"
      and wf: "grid_cells hp g = Some cs" using a by simp_all
    from get_cells_validated[OF wf v dh dw N, of alloc]
    have "(neighborhood_calculator_get_cells alloc hp (Some g) N
              = Returns (None, ERROR_MEMORY_ALLOCATION)
            \<and> neighborhood_calculator_count alloc hp (Some g) N
              = Returns (- 1, ERROR_MEMORY_ALLOCATION)
            \<and> \<not> all_granted alloc)
          \<or> (\<exists>s. neighborhood_calculator_get_cells alloc hp (Some g) N
                   = Returns (Some s, ERROR_NONE)
            \<and> neighborhood_calculator_count alloc hp (Some g) N
                 = Returns (word_of_nat (position_set_size (Some s)), ERROR_NONE))"
    proof
      assume f: "neighborhood_calculator_get_cells alloc hp (Some g) N
            = Returns (None, ERROR_MEMORY_ALLOCATION) \<and> \<not> all_granted alloc"
      then show ?thesis using count_of_get_cells[of alloc hp "Some g" N None] by simp
    next
      assume "\<exists>s. neighborhood_calculator_get_cells alloc hp (Some g) N = Returns (Some s, ERROR_NONE)
            \<and> distinct (positions s)
            \<and> set (positions s) \<subseteq>
                (if cs = [] then {}
                 else if (height g - 1) + (width g - 1) \<le>s N
                 then {p. grid_is_valid_position (Some g) p}
                 else {p. grid_is_valid_position (Some g) p
                          \<and> (\<exists>c\<in>set cs. manhattan p c \<le> sint N)})
            \<and> (all_granted alloc \<longrightarrow> set (positions s) =
                (if cs = [] then {}
                 else if (height g - 1) + (width g - 1) \<le>s N
                 then {p. grid_is_valid_position (Some g) p}
                 else {p. grid_is_valid_position (Some g) p
                          \<and> (\<exists>c\<in>set cs. manhattan p c \<le> sint N)}))"
      then obtain s where
        s: "neighborhood_calculator_get_cells alloc hp (Some g) N = Returns (Some s, ERROR_NONE)"
        by blast
      show ?thesis using s count_of_get_cells[OF s] by auto
    qed
    then show ?thesis using False by simp
  qed
qed

theorem validation_order_witness:
  "neighborhood_calculator_get_cells grant_all two_cell_heap (Some (small_grid 0 3 2)) (- 1)
     = Returns (None, ERROR_INVALID_GRID_DIMENSIONS)
   \<and> neighborhood_calculator_get_cells grant_all two_cell_heap (Some (small_grid 3 3 2)) (- 1)
     = Returns (None, ERROR_INVALID_DISTANCE_THRESHOLD)
   \<and> neighborhood_calculator_get_cells grant_all two_cell_heap (Some (small_grid 3 3 2)) 1
     = Returns (None, ERROR_POSITION_OUT_OF_BOUNDS)
   \<and> (\<exists>s. neighborhood_calculator_get_cells grant_all two_cell_heap (Some (small_grid 3 3 1)) 1
     = Returns (Some s, ERROR_NONE))"
proof -
  have c2: "grid_cells two_cell_heap (small_grid 3 3 2) = Some [position_create 1 1, position_create 5 0]"
    and c1: "grid_cells two_cell_heap (small_grid 3 3 1) = Some [position_create 1 1]"
    by (simp_all add: grid_cells_def two_cell_heap_def small_grid_def)
  have v2: "\<exists>c\<in>set [position_create 1 1, position_create 5 0].
              \<not> grid_is_valid_position (Some (small_grid 3 3 2)) c"
    and v1: "\<not> (\<exists>c\<in>set [position_create 1 1].
              \<not> grid_is_valid_position (Some (small_grid 3 3 1)) c)"
    by (simp_all add: valid_iff small_grid_def position_create_def)
  have d: "height (small_grid 0 3 2) \<le>s 0"
     "0 <s height (small_grid 3 3 2) \<and> 0 <s width (small_grid 3 3 2) \<and> (- 1 :: cint) <s 0"
     "0 <s height (small_grid 3 3 2) \<and> 0 <s width (small_grid 3 3 2) \<and> (0 :: cint) \<le>s 1"
     "0 <s height (small_grid 3 3 1) \<and> 0 <s width (small_grid 3 3 1) \<and> (0 :: cint) \<le>s 1"
    by (simp_all add: small_grid_def sle_sint sless_sint)
  from validation_order[of grant_all two_cell_heap "- 1" "small_grid 0 3 2"] d(1)
  have a: "neighborhood_calculator_get_cells grant_all two_cell_heap (Some (small_grid 0 3 2)) (- 1)
     = Returns (None, ERROR_INVALID_GRID_DIMENSIONS)" by blast
  from validation_order[of grant_all two_cell_heap "- 1" "small_grid 3 3 2"] d(2)
  have b: "neighborhood_calculator_get_cells grant_all two_cell_heap (Some (small_grid 3 3 2)) (- 1)
     = Returns (None, ERROR_INVALID_DISTANCE_THRESHOLD)" by blast
  from validation_order[of grant_all two_cell_heap 1 "small_grid 3 3 2" "[position_create 1 1, position_create 5 0]"]
    d(3) c2
  have "if \<exists>c\<in>set [position_create 1 1, position_create 5 0].
              \<not> grid_is_valid_position (Some (small_grid 3 3 2)) c
         then neighborhood_calculator_get_cells grant_all two_cell_heap (Some (small_grid 3 3 2)) 1
                = Returns (None, ERROR_POSITION_OUT_OF_BOUNDS)
              \<and> neighborhood_calculator_count grant_all two_cell_heap (Some (small_grid 3 3 2)) 1
                = Returns (- 1, ERROR_POSITION_OUT_OF_BOUNDS)
         else (neighborhood_calculator_get_cells grant_all two_cell_heap (Some (small_grid 3 3 2)) 1
                  = Returns (None, ERROR_MEMORY_ALLOCATION)
                \<and> neighborhood_calculator_count grant_all two_cell_heap (Some (small_grid 3 3 2)) 1
                  = Returns (- 1, ERROR_MEMORY_ALLOCATION)
                \<and> \<not> all_granted grant_all)
              \<or> (\<exists>s. neighborhood_calculator_get_cells grant_all two_cell_heap
                        (Some (small_grid 3 3 2)) 1
                       = Returns (Some s, ERROR_NONE)
                \<and> neighborhood_calculator_count grant_all two_cell_heap (Some (small_grid 3 3 2)) 1
                     = Returns (word_of_nat (position_set_size (Some s)), ERROR_NONE))"
    by blast
  then have c: "neighborhood_calculator_get_cells grant_all two_cell_heap (Some (small_grid 3 3 2)) 1
     = Returns (None, ERROR_POSITION_OUT_OF_BOUNDS)"
    unfolding if_P[OF v2] by blast
  from validation_order[of grant_all two_cell_heap 1 "small_grid 3 3 1" "[position_create 1 1]"]
    d(4) c1
  have "if \<exists>c\<in>set [position_create 1 1].
              \<not> grid_is_valid_position (Some (small_grid 3 3 1)) c
         then neighborhood_calculator_get_cells grant_all two_cell_heap (Some (small_grid 3 3 1)) 1
                = Returns (None, ERROR_POSITION_OUT_OF_BOUNDS)
              \<and> neighborhood_calculator_count grant_all two_cell_heap (Some (small_grid 3 3 1)) 1
                = Returns (- 1, ERROR_POSITION_OUT_OF_BOUNDS)
         else (neighborhood_calculator_get_cells grant_all two_cell_heap (Some (small_grid 3 3 1)) 1
                  = Returns (None, ERROR_MEMORY_ALLOCATION)
                \<and> neighborhood_calculator_count grant_all two_cell_heap (Some (small_grid 3 3 1)) 1
                  = Returns (- 1, ERROR_MEMORY_ALLOCATION)
                \<and> \<not> all_granted grant_all)
              \<or> (\<exists>s. neighborhood_calculator_get_cells grant_all two_cell_heap
                        (Some (small_grid 3 3 1)) 1
                       = Returns (Some s, ERROR_NONE)
                \<and> neighborhood_calculator_count grant_all two_cell_heap (Some (small_grid 3 3 1)) 1
                     = Returns (word_of_nat (position_set_size (Some s)), ERROR_NONE))"
    by blast
  then have e: "\<exists>s. neighborhood_calculator_get_cells grant_all two_cell_heap (Some (small_grid 3 3 1)) 1
     = Returns (Some s, ERROR_NONE)"
    unfolding if_not_P[OF v1] using grant_all_granted by blast
  show ?thesis using a b c e by blast
qed

lemma result_size_bound:
  assumes "distinct (positions s)"
      and "set (positions s) \<subseteq> {p. grid_is_valid_position (Some g) p}"
      and "0 <s height g" "0 <s width g"
  shows "int (position_set_size (Some s)) \<le> sint (height g) * sint (width g)"
proof -
  have fin: "finite {p. grid_is_valid_position (Some g) p}"
  proof (rule card_ge_0_finite)
    have "0 < nat (sint (height g)) * nat (sint (width g))"
      using assms(3,4) by (simp add: sless_sint)
    then show "0 < card {p. grid_is_valid_position (Some g) p}" by (simp add: card_valid)
  qed
  have "position_set_size (Some s) \<le> card {p. grid_is_valid_position (Some g) p}"
    unfolding size_card[OF assms(1)] by (rule card_mono[OF fin assms(2)])
  then have "int (position_set_size (Some s)) \<le> int (nat (sint (height g)) * nat (sint (width g)))"
    unfolding card_valid by (rule iffD2[OF of_nat_le_iff])
  also have "\<dots> = int (nat (sint (height g))) * int (nat (sint (width g)))" by simp
  also have "\<dots> = sint (height g) * sint (width g)"
    using assms(3,4) by (simp add: sless_sint)
  finally show ?thesis .
qed

lemma get_cells_some_dims:
  assumes "neighborhood_calculator_get_cells alloc hp (Some g) N = Returns (Some s, ec)"
  shows "0 <s height g" "0 <s width g"
  using assms
  by (auto simp: neighborhood_calculator_get_cells_def sless_sint sle_sint split: if_splits)

lemma validate_no_cells:
  assumes "sint (positive_cell_count g) \<le> 0"
  shows "grid_validate_positions hp (Some g) = Returns True"
  using assms
  by (simp add: grid_validate_positions_def grid_validate_positions_loop.simps[of hp g 0] sless_sint)

lemma positive_cells_loop_no_cells:
  assumes "sint (positive_cell_count g) \<le> 0"
  shows "positive_cells_loop alloc hp g N 0 acc = Returns (acc, ERROR_NONE)"
  using assms by (simp add: positive_cells_loop.simps[of alloc hp g N 0] sless_sint)

lemma get_cells_negative_count:
  assumes neg: "sint (positive_cell_count g) < 0"
      and dims: "0 <s height g" "0 <s width g"
      and N: "0 \<le>s N"
  shows "(neighborhood_calculator_get_cells alloc hp (Some g) N
            = Returns (None, ERROR_MEMORY_ALLOCATION) \<and> \<not> all_granted alloc)
       \<or> (\<exists>s. neighborhood_calculator_get_cells alloc hp (Some g) N = Returns (Some s, ERROR_NONE)
            \<and> distinct (positions s)
            \<and> set (positions s) \<subseteq>
                (if (height g - 1) + (width g - 1) \<le>s N
                 then {p. grid_is_valid_position (Some g) p} else {})
            \<and> (all_granted alloc \<longrightarrow> set (positions s) =
                (if (height g - 1) + (width g - 1) \<le>s N
                 then {p. grid_is_valid_position (Some g) p} else {})))"
proof -
  have d: "\<not> (height g \<le>s 0 \<or> width g \<le>s 0)" "\<not> N <s 0"
    using dims N by (auto simp: sless_sint sle_sint)
  have v: "grid_validate_positions hp (Some g) = Returns True"
    using neg by (intro validate_no_cells) simp
  have cz: "positive_cell_count g \<noteq> 0" using neg by auto
  let ?e = "\<lparr>positions = [], capacity = INITIAL_CAPACITY\<rparr>"
  from position_set_create_cases[of alloc] show ?thesis
  proof
    assume f: "position_set_create alloc = None \<and> \<not> all_granted alloc"
    then have "neighborhood_calculator_get_cells alloc hp (Some g) N
                 = Returns (None, ERROR_MEMORY_ALLOCATION)"
      using d v by (simp add: neighborhood_calculator_get_cells_def)
    then show ?thesis using f by blast
  next
    assume cr: "position_set_create alloc = Some ?e"
    show ?thesis
    proof (cases "(height g - 1) + (width g - 1) \<le>s N")
      case True
      from all_cells_rows_result[of alloc g 0 ?e] obtain s where s:
        "all_cells_rows alloc g 0 (Some ?e) = Some s"
        "grows_by alloc ?e {p. grid_is_valid_position (Some g) p} s"
        unfolding all_cells_set by blast
      have "neighborhood_calculator_get_cells alloc hp (Some g) N = Returns (Some s, ERROR_NONE)"
        using d v cz True s(1) cr by (simp add: neighborhood_calculator_get_cells_def)
      then show ?thesis using grows_by_from_empty[OF s(2)] True by simp
    next
      case False
      have "positive_cells_loop alloc hp g N 0 (Some ?e) = Returns (Some ?e, ERROR_NONE)"
        using neg by (intro positive_cells_loop_no_cells) simp
      then have "neighborhood_calculator_get_cells alloc hp (Some g) N
                   = Returns (Some ?e, ERROR_NONE)"
        using d v cz False cr by (simp add: neighborhood_calculator_get_cells_def)
      then show ?thesis using False by simp
    qed
  qed
qed

lemma validate_true_reads_last:
  assumes "grid_validate_positions_loop hp g i = Returns True"
      and "i <s positive_cell_count g" "0 \<le> sint i"
  shows "read_cell hp g (positive_cell_count g - 1) \<noteq> None"
  using assms
proof (induction hp g i rule: grid_validate_positions_loop.induct)
  case (1 hp g i)
  from "1.prems"(1,2) obtain c where c: "read_cell hp g i = Some c"
      "grid_is_valid_position (Some g) c"
      "grid_validate_positions_loop hp g (i + 1) = Returns True"
    by (subst (asm) grid_validate_positions_loop.simps)
       (auto split: option.splits if_splits)
  have sc: "sint (i + 1) = sint i + 1" using "1.prems"(2) by (rule sint_succ)
  show ?case
  proof (cases "i + 1 <s positive_cell_count g")
    case True
    have "0 \<le> sint (i + 1)" using sc "1.prems"(3) by simp
    from "1.IH"[OF "1.prems"(2) c(1) _ c(3) True this] c(2) show ?thesis by simp
  next
    case False
    then have "sint (positive_cell_count g) = sint i + 1"
      using sc "1.prems"(2) by (simp add: sless_sint)
    moreover have "sint (positive_cell_count g - 1) = sint (positive_cell_count g) - 1"
      using calculation "1.prems"(3) sint_bounds[of "positive_cell_count g"]
      by (subst sint_sub_exact) simp_all
    ultimately have "sint (positive_cell_count g - 1) = sint i" by simp
    then have "positive_cell_count g - 1 = i" by (simp add: sint_eq_iff)
    then show ?thesis using c(1) by simp
  qed
qed

lemma validated_grid_cells:
  assumes "grid_validate_positions hp (Some g) = Returns True"
      and "0 \<le> sint (positive_cell_count g)"
  shows "\<exists>cs. grid_cells hp g = Some cs"
proof (cases "sint (positive_cell_count g) = 0")
  case True
  then show ?thesis by (simp add: grid_cells_def)
next
  case False
  then have pos: "0 < sint (positive_cell_count g)" using assms(2) by simp
  then have "(0::cint) <s positive_cell_count g" by (simp add: sless_sint)
  from validate_true_reads_last[OF _ this] assms(1)
  have r: "read_cell hp g (positive_cell_count g - 1) \<noteq> None"
    by (simp add: grid_validate_positions_def)
  have "sint (positive_cell_count g - 1) = sint (positive_cell_count g) - 1"
    using pos sint_bounds[of "positive_cell_count g"] by (subst sint_sub_exact) simp_all
  then show ?thesis using r pos
    by (auto simp: read_cell_def grid_cells_def Let_def split: option.splits if_splits)
qed

lemma get_cells_some:
  assumes "neighborhood_calculator_get_cells alloc hp (Some g) N = Returns (Some s, ec)"
  shows "ec = ERROR_NONE \<and> distinct (positions s)
         \<and> set (positions s) \<subseteq> {p. grid_is_valid_position (Some g) p}"
proof -
  note dims = get_cells_some_dims[OF assms]
  have N: "0 \<le>s N" using assms dims
    by (auto simp: neighborhood_calculator_get_cells_def sless_sint sle_sint split: if_splits)
  have v: "grid_validate_positions hp (Some g) = Returns True"
    using assms dims N
    by (auto simp: neighborhood_calculator_get_cells_def sless_sint sle_sint
             split: if_splits run.splits bool.splits)
  show ?thesis
  proof (cases "sint (positive_cell_count g) < 0")
    case True
    from get_cells_negative_count[OF True dims N, of alloc hp] assms show ?thesis
      by (auto split: if_splits)
  next
    case False
    then obtain cs where cs: "grid_cells hp g = Some cs"
      using validated_grid_cells[OF v] by auto
    from get_cells_returns[OF cs, of alloc N] assms show ?thesis by auto
  qed
qed

lemma all_granted_eq:
  assumes "all_granted alloc" "all_granted alloc'"
  shows "alloc' = alloc"
  using assms by (auto simp: all_granted_def fun_eq_iff)

lemma validate_loop_store:
  assumes "\<forall>j. 0 \<le> sint j \<and> j <s positive_cell_count g \<longrightarrow> read_cell hp' g j = read_cell hp g j"
      and "0 \<le> sint i"
  shows "grid_validate_positions_loop hp' g i = grid_validate_positions_loop hp g i"
  using assms
proof (induction hp g i rule: grid_validate_positions_loop.induct)
  case (1 hp g i)
  show ?case
  proof (cases "i <s positive_cell_count g")
    case False
    then show ?thesis
      by (simp add: grid_validate_positions_loop.simps[of hp g i]
                    grid_validate_positions_loop.simps[of hp' g i])
  next
    case True
    have rd: "read_cell hp' g i = read_cell hp g i" using "1.prems" True by blast
    have i1: "0 \<le> sint (i + 1)" using sint_succ[OF True] "1.prems"(2) by simp
    show ?thesis
    proof (cases "read_cell hp g i")
      case None
      then show ?thesis using True rd
        by (simp add: grid_validate_positions_loop.simps[of hp g i]
                      grid_validate_positions_loop.simps[of hp' g i])
    next
      case (Some c)
      show ?thesis
      proof (cases "grid_is_valid_position (Some g) c")
        case False
        then show ?thesis using True Some rd
          by (simp add: grid_validate_positions_loop.simps[of hp g i]
                        grid_validate_positions_loop.simps[of hp' g i])
      next
        case valid: True
        have "grid_validate_positions_loop hp' g (i + 1) = grid_validate_positions_loop hp g (i + 1)"
          using "1.IH"[OF True Some _ "1.prems"(1) i1] valid by simp
        then show ?thesis using True Some valid rd
          by (simp add: grid_validate_positions_loop.simps[of hp g i]
                        grid_validate_positions_loop.simps[of hp' g i])
      qed
    qed
  qed
qed

lemma positive_cells_loop_store:
  assumes "\<forall>j. 0 \<le> sint j \<and> j <s positive_cell_count g \<longrightarrow> read_cell hp' g j = read_cell hp g j"
      and "0 \<le> sint i"
  shows "positive_cells_loop alloc hp' g N i acc = positive_cells_loop alloc hp g N i acc"
  using assms
proof (induction alloc hp g N i acc rule: positive_cells_loop.induct)
  case (1 alloc hp g N i acc)
  show ?case
  proof (cases "i <s positive_cell_count g")
    case False
    then show ?thesis
      by (simp add: positive_cells_loop.simps[of alloc hp g N i]
                    positive_cells_loop.simps[of alloc hp' g N i])
  next
    case True
    have rd: "read_cell hp' g i = read_cell hp g i" using "1.prems" True by blast
    have i1: "0 \<le> sint (i + 1)" using sint_succ[OF True] "1.prems"(2) by simp
    show ?thesis
    proof (cases "read_cell hp g i")
      case None
      then show ?thesis using True rd
        by (simp add: positive_cells_loop.simps[of alloc hp g N i]
                      positive_cells_loop.simps[of alloc hp' g N i])
    next
      case (Some c)
      show ?thesis
      proof (cases "enumerate_neighborhood alloc c N (Some g)")
        case None
        then show ?thesis using True Some rd
          by (simp add: positive_cells_loop.simps[of alloc hp g N i]
                        positive_cells_loop.simps[of alloc hp' g N i])
      next
        case outer: (Some r)
        show ?thesis
        proof (cases r)
          case None
          then show ?thesis using True Some outer rd
            by (simp add: positive_cells_loop.simps[of alloc hp g N i]
                          positive_cells_loop.simps[of alloc hp' g N i])
        next
          case nb: (Some nb)
          have "positive_cells_loop alloc hp' g N (i + 1)
                  (add_neighborhood alloc (positions nb) acc)
                = positive_cells_loop alloc hp g N (i + 1)
                  (add_neighborhood alloc (positions nb) acc)"
            using "1.IH"[OF True Some _ _ "1.prems"(1) i1] outer nb by simp
          then show ?thesis using True Some outer nb rd
            by (simp add: positive_cells_loop.simps[of alloc hp g N i]
                          positive_cells_loop.simps[of alloc hp' g N i])
        qed
      qed
    qed
  qed
qed

lemma get_cells_store:
  assumes "\<forall>j. 0 \<le> sint j \<and> j <s positive_cell_count g \<longrightarrow> read_cell hp' g j = read_cell hp g j"
  shows "neighborhood_calculator_get_cells alloc hp' (Some g) N
           = neighborhood_calculator_get_cells alloc hp (Some g) N"
proof -
  have z: "0 \<le> sint (0::cint)" by simp
  show ?thesis
    by (simp only: neighborhood_calculator_get_cells_def grid_validate_positions_def option.case
                   validate_loop_store[OF assms z] positive_cells_loop_store[OF assms z])
qed

text \<open>
  Claim C9, as amended. For a grid of at most \<^verbatim>\<open>INT_MAX\<close> cells,
  \<^verbatim>\<open>neighborhood_calculator_count\<close> returns \<open>-1\<close> exactly when
  \<^verbatim>\<open>neighborhood_calculator_get_cells\<close> returns \<^verbatim>\<open>NULL\<close>, which is exactly when the error code
  is not \<^verbatim>\<open>ERROR_NONE\<close>; both calls set the same error code; and when a set is returned the
  count is not negative. The error code is one of the three validation errors unless an
  allocation was not granted. A \<^verbatim>\<open>NULL\<close> grid gives \<open>-1\<close> and
  \<^verbatim>\<open>ERROR_INVALID_GRID_DIMENSIONS\<close>.
\<close>

theorem count_sentinel:
  "neighborhood_calculator_count alloc hp None N = Returns (- 1, ERROR_INVALID_GRID_DIMENSIONS)
   \<and> (grid_cells hp g = Some cs \<and> sint (height g) * sint (width g) \<le> INT_MAX \<longrightarrow>
        (\<exists>cells ec n. neighborhood_calculator_get_cells alloc hp (Some g) N = Returns (cells, ec)
           \<and> neighborhood_calculator_count alloc hp (Some g) N = Returns (n, ec)
           \<and> (n = - 1 \<longleftrightarrow> cells = None)
           \<and> (cells = None \<longleftrightarrow> ec \<noteq> ERROR_NONE)
           \<and> (cells = None \<or> 0 \<le> sint n)
           \<and> (ec = ERROR_MEMORY_ALLOCATION \<longrightarrow> \<not> all_granted alloc)))"
proof (intro conjI impI)
  have n: "neighborhood_calculator_get_cells alloc hp None N = Returns (None, ERROR_INVALID_GRID_DIMENSIONS)"
    by (rule get_cells_invalid_dimensions) simp
  show "neighborhood_calculator_count alloc hp None N = Returns (- 1, ERROR_INVALID_GRID_DIMENSIONS)"
    using count_of_get_cells[OF n] by simp
next
  assume a: "grid_cells hp g = Some cs \<and> sint (height g) * sint (width g) \<le> INT_MAX"
  from get_cells_returns[of hp g cs alloc N] a obtain cells ec where r:
    "neighborhood_calculator_get_cells alloc hp (Some g) N = Returns (cells, ec)"
    "cells = None \<longleftrightarrow> ec \<noteq> ERROR_NONE"
    "\<forall>s. cells = Some s \<longrightarrow> distinct (positions s)
                  \<and> set (positions s) \<subseteq> {p. grid_is_valid_position (Some g) p}"
    "ec = ERROR_MEMORY_ALLOCATION \<longrightarrow> \<not> all_granted alloc"
    by blast
  let ?n = "if cells = None then - 1 else word_of_nat (position_set_size cells) :: cint"
  note c = count_of_get_cells[OF r(1)]
  have "(?n = - 1 \<longleftrightarrow> cells = None) \<and> (cells = None \<or> 0 \<le> sint ?n)"
  proof (cases cells)
    case None
    then show ?thesis by simp
  next
    case (Some s)
    note d = get_cells_some_dims[OF r(1)[unfolded Some]]
    have "int (position_set_size (Some s)) \<le> INT_MAX"
      using result_size_bound[OF _ _ d] r(3) Some a by fastforce
    then have "sint (word_of_nat (position_set_size (Some s)) :: cint) = int (position_set_size (Some s))"
      by (rule sint_of_nat_exact)
    moreover have "sint (- 1 :: cint) = - 1" by simp
    ultimately have "0 \<le> sint (word_of_nat (position_set_size (Some s)) :: cint)"
      "(word_of_nat (position_set_size (Some s)) :: cint) \<noteq> - 1"
      by (simp, fastforce)
    then show ?thesis using Some by simp
  qed
  then show "\<exists>cells ec n. neighborhood_calculator_get_cells alloc hp (Some g) N = Returns (cells, ec)
           \<and> neighborhood_calculator_count alloc hp (Some g) N = Returns (n, ec)
           \<and> (n = - 1 \<longleftrightarrow> cells = None)
           \<and> (cells = None \<longleftrightarrow> ec \<noteq> ERROR_NONE)
           \<and> (cells = None \<or> 0 \<le> sint n)
           \<and> (ec = ERROR_MEMORY_ALLOCATION \<longrightarrow> \<not> all_granted alloc)"
    using r(1,2,4) c by blast
qed

theorem count_sentinel_witness:
  "grid_cells two_cell_heap (small_grid 3 3 1) = Some [position_create 1 1]
   \<and> sint (height (small_grid 3 3 1)) * sint (width (small_grid 3 3 1)) \<le> INT_MAX
   \<and> (\<exists>cells ec n.
         neighborhood_calculator_get_cells grant_all two_cell_heap (Some (small_grid 3 3 1)) 1 = Returns (cells, ec)
         \<and> neighborhood_calculator_count grant_all two_cell_heap (Some (small_grid 3 3 1)) 1 = Returns (n, ec)
         \<and> (n = - 1 \<longleftrightarrow> cells = None)
         \<and> (cells = None \<longleftrightarrow> ec \<noteq> ERROR_NONE)
         \<and> (cells = None \<or> 0 \<le> sint n))
   \<and> neighborhood_calculator_count grant_all two_cell_heap (Some (small_grid 3 3 1)) 1 = Returns (5, ERROR_NONE)"
proof -
  have c: "grid_cells two_cell_heap (small_grid 3 3 1) = Some [position_create 1 1]"
    by (simp add: grid_cells_def two_cell_heap_def small_grid_def)
  have b: "sint (height (small_grid 3 3 1)) * sint (width (small_grid 3 3 1)) \<le> INT_MAX"
    by (simp add: small_grid_def INT_MAX_def)
  have e: "neighborhood_calculator_count grant_all two_cell_heap (Some (small_grid 3 3 1)) 1
             = Returns (5, ERROR_NONE)"
    by code_simp
  show ?thesis
    using count_sentinel[of grant_all two_cell_heap 1 "small_grid 3 3 1" "[position_create 1 1]"] c b e
    by blast
qed

text \<open>
  Claim C9 as stated fails on a grid of \<open>65535 * 65537 = 2^32 - 1\<close> cells at its saturation
  threshold: the set of all cells is returned with \<^verbatim>\<open>ERROR_NONE\<close>, and its size converted to
  \<^verbatim>\<open>int\<close> is the sentinel \<open>-1\<close>.
\<close>

theorem count_sentinel_collision:
  "neighborhood_calculator_count grant_all one_cell_heap (Some (one_cell_grid 65535 65537)) 131070
      = Returns (- 1, ERROR_NONE)
   \<and> position_set_size (returned_set
        (neighborhood_calculator_get_cells grant_all one_cell_heap (Some (one_cell_grid 65535 65537)) 131070))
      = 4294967295"
proof -
  have v: "\<forall>c\<in>set [position_create 0 0]. grid_is_valid_position (Some (one_cell_grid 65535 65537)) c"
    by (rule one_cell_grid_valid) (simp_all add: sless_sint)
  have N: "(0::cint) \<le>s 131070"
    "(height (one_cell_grid 65535 65537) - 1) + (width (one_cell_grid 65535 65537) - 1) \<le>s 131070"
    by (simp_all add: one_cell_grid_def sle_sint)
  from get_cells_saturated[OF one_cell_grid_cells _ v N grant_all_granted] obtain s where s:
    "neighborhood_calculator_get_cells grant_all one_cell_heap (Some (one_cell_grid 65535 65537)) 131070
       = Returns (Some s, ERROR_NONE)"
    "position_set_size (Some s) = 4294967295"
    by (auto simp: one_cell_grid_def)
  have "(word_of_nat 4294967295 :: cint) = - 1" by simp
  then show ?thesis using s count_of_get_cells[OF s(1)] by (simp add: returned_set_def)
qed

text \<open>
  Claim C4, as amended. Whenever \<^verbatim>\<open>neighborhood_calculator_get_cells\<close> returns a set, the set
  holds no position twice, so its size is the number of distinct cells, and
  \<^verbatim>\<open>neighborhood_calculator_count\<close> returns that size converted to \<^verbatim>\<open>int\<close> with the same error
  code: the size itself whenever it is at most \<^verbatim>\<open>INT_MAX\<close>. When every allocation is granted,
  the two results are determined by the grid and the threshold: they are the same under
  every allocator that grants every request, and in every store in which the grid reads
  the same positive cells.
\<close>

theorem count_is_set_size:
  assumes "neighborhood_calculator_get_cells alloc hp (Some g) N = Returns (Some s, ec)"
  shows "unique_positions s
       \<and> position_set_size (Some s) = card (set (positions s))
       \<and> neighborhood_calculator_count alloc hp (Some g) N
            = Returns (word_of_nat (position_set_size (Some s)), ec)
       \<and> (int (position_set_size (Some s)) \<le> INT_MAX \<longrightarrow>
            sint (word_of_nat (position_set_size (Some s)) :: cint) = int (position_set_size (Some s)))
       \<and> (\<forall>alloc' hp'.
             all_granted alloc \<and> all_granted alloc'
             \<and> (\<forall>j. 0 \<le> sint j \<and> j <s positive_cell_count g \<longrightarrow>
                      read_cell hp' g j = read_cell hp g j) \<longrightarrow>
             neighborhood_calculator_get_cells alloc' hp' (Some g) N = Returns (Some s, ec)
             \<and> neighborhood_calculator_count alloc' hp' (Some g) N
                  = Returns (word_of_nat (position_set_size (Some s)), ec))"
proof -
  from get_cells_some[OF assms] have d: "distinct (positions s)" by simp
  have det: "neighborhood_calculator_get_cells alloc' hp' (Some g) N = Returns (Some s, ec)
             \<and> neighborhood_calculator_count alloc' hp' (Some g) N
                  = Returns (word_of_nat (position_set_size (Some s)), ec)"
    if g: "all_granted alloc" "all_granted alloc'"
      and r: "\<forall>j. 0 \<le> sint j \<and> j <s positive_cell_count g \<longrightarrow>
                      read_cell hp' g j = read_cell hp g j"
    for alloc' hp'
  proof -
    have "neighborhood_calculator_get_cells alloc' hp' (Some g) N = Returns (Some s, ec)"
      unfolding all_granted_eq[OF g] get_cells_store[OF r] by (rule assms)
    then show ?thesis using count_of_get_cells by simp
  qed
  have a: "unique_positions s" using d by (simp add: unique_positions_distinct)
  have b: "position_set_size (Some s) = card (set (positions s))" by (rule size_card[OF d])
  have c: "neighborhood_calculator_count alloc hp (Some g) N
            = Returns (word_of_nat (position_set_size (Some s)), ec)"
    using count_of_get_cells[OF assms] by simp
  have e: "int (position_set_size (Some s)) \<le> INT_MAX \<longrightarrow>
            sint (word_of_nat (position_set_size (Some s)) :: cint) = int (position_set_size (Some s))"
    using sint_of_nat_exact by blast
  show ?thesis using a b c e det by blast
qed

theorem count_is_set_size_witness:
  "neighborhood_calculator_get_cells grant_all two_cell_heap (Some (small_grid 3 3 1)) 1
       = Returns (Some \<lparr>positions = [position_create 0 1, position_create 1 0, position_create 1 1,
                                      position_create 1 2, position_create 2 1], capacity = 16\<rparr>, ERROR_NONE)
   \<and> neighborhood_calculator_count grant_all two_cell_heap (Some (small_grid 3 3 1)) 1 = Returns (5, ERROR_NONE)
   \<and> unique_positions \<lparr>positions = [position_create 0 1, position_create 1 0, position_create 1 1,
                                      position_create 1 2, position_create 2 1], capacity = 16\<rparr>
   \<and> neighborhood_calculator_count grant_all [[position_create 1 1]] (Some (small_grid 3 3 1)) 1
       = Returns (5, ERROR_NONE)"
proof -
  let ?s = "\<lparr>positions = [position_create 0 1, position_create 1 0, position_create 1 1,
                                      position_create 1 2, position_create 2 1], capacity = 16\<rparr>"
  let ?g = "small_grid 3 3 1"
  have e: "neighborhood_calculator_get_cells grant_all two_cell_heap (Some ?g) 1
       = Returns (Some ?s, ERROR_NONE)"
    by code_simp
  have sz: "position_set_size (Some ?s) = 5" by (simp add: position_set_size_def)
  have r: "\<forall>j. 0 \<le> sint j \<and> j <s positive_cell_count ?g \<longrightarrow>
             read_cell [[position_create 1 1]] ?g j = read_cell two_cell_heap ?g j"
  proof (intro allI impI)
    fix j :: cint assume "0 \<le> sint j \<and> j <s positive_cell_count ?g"
    then have "sint j = 0" by (simp add: small_grid_def sless_sint)
    then have "j = 0" by (simp add: sint_zero_iff)
    then show "read_cell [[position_create 1 1]] ?g j = read_cell two_cell_heap ?g j"
      by (simp add: read_cell_def small_grid_def two_cell_heap_def)
  qed
  note t = count_is_set_size[OF e]
  from t sz have a: "unique_positions ?s"
    "neighborhood_calculator_count grant_all two_cell_heap (Some ?g) 1 = Returns (5, ERROR_NONE)"
    by simp_all
  from t grant_all_granted r
  have "neighborhood_calculator_count grant_all [[position_create 1 1]] (Some ?g) 1
          = Returns (word_of_nat (position_set_size (Some ?s)), ERROR_NONE)"
    by blast
  then have b: "neighborhood_calculator_count grant_all [[position_create 1 1]] (Some ?g) 1
          = Returns (5, ERROR_NONE)"
    unfolding sz by simp
  show ?thesis using e a b by blast
qed

text \<open>
  Claim C4 as stated fails on a grid of \<open>32768 * 65536 = 2^31\<close> cells at its saturation
  threshold: the set has \<open>2^31\<close> elements and the count returned is \<open>-2^31\<close>.
\<close>

theorem count_wraps:
  "neighborhood_calculator_count grant_all one_cell_heap (Some (one_cell_grid 32768 65536)) 98302
      = Returns (- 2147483648, ERROR_NONE)
   \<and> position_set_size (returned_set
        (neighborhood_calculator_get_cells grant_all one_cell_heap (Some (one_cell_grid 32768 65536)) 98302))
      = 2147483648"
proof -
  have v: "\<forall>c\<in>set [position_create 0 0]. grid_is_valid_position (Some (one_cell_grid 32768 65536)) c"
    by (rule one_cell_grid_valid) (simp_all add: sless_sint)
  have N: "(0::cint) \<le>s 98302"
    "(height (one_cell_grid 32768 65536) - 1) + (width (one_cell_grid 32768 65536) - 1) \<le>s 98302"
    by (simp_all add: one_cell_grid_def sle_sint)
  from get_cells_saturated[OF one_cell_grid_cells _ v N grant_all_granted] obtain s where s:
    "neighborhood_calculator_get_cells grant_all one_cell_heap (Some (one_cell_grid 32768 65536)) 98302
       = Returns (Some s, ERROR_NONE)"
    "position_set_size (Some s) = 2147483648"
    by (auto simp: one_cell_grid_def)
  have "(word_of_nat 2147483648 :: cint) = - 2147483648" by simp
  then show ?thesis using s count_of_get_cells[OF s(1)] by (simp add: returned_set_def)
qed

section \<open>NeighborhoodCalculator: the union of the clipped diamonds\<close>

lemma diameter_exact:
  assumes "0 <s height g" "0 <s width g"
      and "sint (height g) - 1 + (sint (width g) - 1) \<le> INT_MAX"
  shows "sint ((height g - 1) + (width g - 1)) = sint (height g) - 1 + (sint (width g) - 1)"
proof -
  have h: "sint (height g - 1) = sint (height g) - 1"
    using assms(1) sint_bounds[of "height g"] by (subst sint_sub_exact) (simp_all add: sless_sint)
  have w: "sint (width g - 1) = sint (width g) - 1"
    using assms(2) sint_bounds[of "width g"] by (subst sint_sub_exact) (simp_all add: sless_sint)
  show ?thesis
    using assms h w by (subst sint_add_exact) (simp_all add: sless_sint INT_MAX_def)
qed

lemma within_diameter:
  assumes "grid_is_valid_position (Some g) p" "grid_is_valid_position (Some g) c"
  shows "manhattan p c \<le> sint (height g) - 1 + (sint (width g) - 1)"
  using assms unfolding valid_iff manhattan_def by linarith

lemma get_cells_union:
  assumes wf: "grid_cells hp g = Some cs"
      and valid: "\<forall>c\<in>set cs. grid_is_valid_position (Some g) c"
      and dims: "0 <s height g" "0 <s width g"
      and N: "0 \<le>s N"
      and diam: "sint (height g) - 1 + (sint (width g) - 1) \<le> INT_MAX"
      and granted: "all_granted alloc"
  shows "\<exists>s. neighborhood_calculator_get_cells alloc hp (Some g) N = Returns (Some s, ERROR_NONE)
      \<and> distinct (positions s)
      \<and> set (positions s) =
           {p. grid_is_valid_position (Some g) p \<and> (\<exists>c\<in>set cs. manhattan p c \<le> sint N)}"
proof -
  from get_cells_success[OF wf valid dims N granted] obtain s where s:
    "neighborhood_calculator_get_cells alloc hp (Some g) N = Returns (Some s, ERROR_NONE)"
    "distinct (positions s)"
    "set (positions s) =
          (if cs = [] then {}
           else if (height g - 1) + (width g - 1) \<le>s N
           then {p. grid_is_valid_position (Some g) p}
           else {p. grid_is_valid_position (Some g) p \<and> (\<exists>c\<in>set cs. manhattan p c \<le> sint N)})"
    by blast
  have "set (positions s) =
           {p. grid_is_valid_position (Some g) p \<and> (\<exists>c\<in>set cs. manhattan p c \<le> sint N)}"
  proof (cases "cs = []")
    case True
    then show ?thesis using s(3) by simp
  next
    case ne: False
    show ?thesis
    proof (cases "(height g - 1) + (width g - 1) \<le>s N")
      case False
      then show ?thesis using s(3) ne by simp
    next
      case True
      then have le: "sint (height g) - 1 + (sint (width g) - 1) \<le> sint N"
        using diameter_exact[OF dims diam] by (simp add: sle_sint)
      obtain c where c: "c \<in> set cs" using ne by (cases cs) auto
      have "\<And>p. grid_is_valid_position (Some g) p \<Longrightarrow> \<exists>c\<in>set cs. manhattan p c \<le> sint N"
        using within_diameter valid c le by (meson order_trans)
      then show ?thesis using s(3) ne True by auto
    qed
  qed
  then show ?thesis using s(1,2) by blast
qed

lemma get_cells_no_array:
  assumes neg: "sint (positive_cell_count g) < 0"
      and dims: "0 <s height g" "0 <s width g"
      and N: "0 \<le>s N"
      and diam: "sint (height g) - 1 + (sint (width g) - 1) \<le> INT_MAX"
      and granted: "all_granted alloc"
  shows "\<exists>s. neighborhood_calculator_get_cells alloc hp (Some g) N = Returns (Some s, ERROR_NONE)
      \<and> distinct (positions s)
      \<and> set (positions s) =
           {p. grid_is_valid_position (Some g) p
               \<and> sint (height g) - 1 + (sint (width g) - 1) \<le> sint N}"
proof -
  have t: "(height g - 1) + (width g - 1) \<le>s N
             \<longleftrightarrow> sint (height g) - 1 + (sint (width g) - 1) \<le> sint N"
    using diameter_exact[OF dims diam] by (simp add: sle_sint)
  from get_cells_negative_count[OF neg dims N, of alloc hp] granted obtain s where s:
    "neighborhood_calculator_get_cells alloc hp (Some g) N = Returns (Some s, ERROR_NONE)"
    "distinct (positions s)"
    "set (positions s) =
       (if (height g - 1) + (width g - 1) \<le>s N
        then {p. grid_is_valid_position (Some g) p} else {})"
    by blast
  have "set (positions s) =
           {p. grid_is_valid_position (Some g) p
               \<and> sint (height g) - 1 + (sint (width g) - 1) \<le> sint N}"
    unfolding s(3) t by auto
  then show ?thesis using s(1,2) by blast
qed

text \<open>
  Claim C1, as amended. Take a grid of positive height and width whose diameter
  \<open>(height - 1) + (width - 1)\<close> is at most \<^verbatim>\<open>INT_MAX\<close>, a threshold \<open>N >= 0\<close>, and let every
  allocation be granted. If the count of the grid is not negative and its array holds that
  many positive cells, all within bounds, then \<^verbatim>\<open>neighborhood_calculator_get_cells\<close> returns
  a set with \<^verbatim>\<open>ERROR_NONE\<close>, and a position is in the set exactly when it is within bounds and
  some positive cell is at Manhattan distance at most \<open>N\<close> from it. No hypothesis chooses
  the branch: the statement covers the enumeration and the saturation branch. If the count
  of the grid is negative, no positive cell is read, and the set returned with
  \<^verbatim>\<open>ERROR_NONE\<close> holds every cell of the grid when \<open>N >= (height - 1) + (width - 1)\<close> and none
  otherwise.
\<close>

theorem get_cells_exact:
  assumes "0 <s height g" "0 <s width g"
      and "0 \<le>s N"
      and "sint (height g) - 1 + (sint (width g) - 1) \<le> INT_MAX"
      and "all_granted alloc"
  shows "(grid_cells hp g = Some cs \<and> (\<forall>c\<in>set cs. grid_is_valid_position (Some g) c) \<longrightarrow>
            (\<exists>s. neighborhood_calculator_get_cells alloc hp (Some g) N = Returns (Some s, ERROR_NONE)
               \<and> (\<forall>p. position_set_contains (Some s) p \<longleftrightarrow>
                         grid_is_valid_position (Some g) p
                         \<and> (\<exists>c\<in>set cs. manhattan p c \<le> sint N))))
       \<and> (sint (positive_cell_count g) < 0 \<longrightarrow>
            (\<exists>s. neighborhood_calculator_get_cells alloc hp (Some g) N = Returns (Some s, ERROR_NONE)
               \<and> (\<forall>p. position_set_contains (Some s) p \<longleftrightarrow>
                         grid_is_valid_position (Some g) p
                         \<and> sint (height g) - 1 + (sint (width g) - 1) \<le> sint N)))"
proof (intro conjI impI)
  assume a: "grid_cells hp g = Some cs \<and> (\<forall>c\<in>set cs. grid_is_valid_position (Some g) c)"
  then have wf: "grid_cells hp g = Some cs"
    and valid: "\<forall>c\<in>set cs. grid_is_valid_position (Some g) c" by simp_all
  from get_cells_union[OF wf valid assms] obtain s where
    "neighborhood_calculator_get_cells alloc hp (Some g) N = Returns (Some s, ERROR_NONE)"
    "set (positions s) =
           {p. grid_is_valid_position (Some g) p \<and> (\<exists>c\<in>set cs. manhattan p c \<le> sint N)}"
    by blast
  then show "\<exists>s. neighborhood_calculator_get_cells alloc hp (Some g) N = Returns (Some s, ERROR_NONE)
               \<and> (\<forall>p. position_set_contains (Some s) p \<longleftrightarrow>
                         grid_is_valid_position (Some g) p
                         \<and> (\<exists>c\<in>set cs. manhattan p c \<le> sint N))"
    by (auto simp: position_set_contains_Some)
next
  assume neg: "sint (positive_cell_count g) < 0"
  from get_cells_no_array[OF neg assms] obtain s where
    "neighborhood_calculator_get_cells alloc hp (Some g) N = Returns (Some s, ERROR_NONE)"
    "set (positions s) =
           {p. grid_is_valid_position (Some g) p
               \<and> sint (height g) - 1 + (sint (width g) - 1) \<le> sint N}"
    by blast
  then show "\<exists>s. neighborhood_calculator_get_cells alloc hp (Some g) N = Returns (Some s, ERROR_NONE)
               \<and> (\<forall>p. position_set_contains (Some s) p \<longleftrightarrow>
                         grid_is_valid_position (Some g) p
                         \<and> sint (height g) - 1 + (sint (width g) - 1) \<le> sint N)"
    by (auto simp: position_set_contains_Some)
qed

theorem get_cells_exact_witness:
  "grid_cells two_cell_heap (small_grid 3 3 1) = Some [position_create 1 1]
   \<and> (\<exists>s. neighborhood_calculator_get_cells grant_all two_cell_heap (Some (small_grid 3 3 1)) 1
             = Returns (Some s, ERROR_NONE)
         \<and> position_set_contains (Some s) (position_create 0 1)
         \<and> \<not> position_set_contains (Some s) (position_create 0 0))
   \<and> (\<exists>s. neighborhood_calculator_get_cells grant_all two_cell_heap (Some (small_grid 3 3 1)) 4
             = Returns (Some s, ERROR_NONE)
         \<and> position_set_contains (Some s) (position_create 0 0))
   \<and> (\<exists>s. neighborhood_calculator_get_cells grant_all two_cell_heap (Some (small_grid 3 3 (- 1))) 4
             = Returns (Some s, ERROR_NONE)
         \<and> position_set_contains (Some s) (position_create 0 0))
   \<and> (\<exists>s. neighborhood_calculator_get_cells grant_all two_cell_heap (Some (small_grid 3 3 (- 1))) 3
             = Returns (Some s, ERROR_NONE)
         \<and> \<not> position_set_contains (Some s) (position_create 0 0))"
proof -
  let ?g = "small_grid 3 3 1" and ?n = "small_grid 3 3 (- 1)"
  have c: "grid_cells two_cell_heap ?g = Some [position_create 1 1]"
    by (simp add: grid_cells_def two_cell_heap_def small_grid_def)
  have v: "\<forall>c\<in>set [position_create 1 1]. grid_is_valid_position (Some ?g) c"
    by (simp add: valid_iff small_grid_def position_create_def)
  have d: "0 <s height ?g" "0 <s width ?g" "(0::cint) \<le>s 1" "(0::cint) \<le>s 4"
      "sint (height ?g) - 1 + (sint (width ?g) - 1) \<le> INT_MAX"
    by (simp_all add: small_grid_def sle_sint sless_sint INT_MAX_def)
  have dn: "0 <s height ?n" "0 <s width ?n" "(0::cint) \<le>s 3"
      "sint (height ?n) - 1 + (sint (width ?n) - 1) \<le> INT_MAX"
      "sint (positive_cell_count ?n) < 0"
      "sint (height ?n) - 1 + (sint (width ?n) - 1) \<le> sint (4::cint)"
      "\<not> sint (height ?n) - 1 + (sint (width ?n) - 1) \<le> sint (3::cint)"
    by (simp_all add: small_grid_def sle_sint sless_sint INT_MAX_def)
  have m: "grid_is_valid_position (Some ?g) (position_create 0 1)"
       "manhattan (position_create 0 1) (position_create 1 1) = 1"
       "grid_is_valid_position (Some ?g) (position_create 0 0)"
       "manhattan (position_create 0 0) (position_create 1 1) = 2"
       "grid_is_valid_position (Some ?n) (position_create 0 0)"
    by (simp_all add: valid_iff small_grid_def position_create_def manhattan_def)
  from get_cells_exact[OF d(1,2,3,5) grant_all_granted, of two_cell_heap "[position_create 1 1]"] c v
  obtain s1 where s1:
    "neighborhood_calculator_get_cells grant_all two_cell_heap (Some ?g) 1 = Returns (Some s1, ERROR_NONE)"
    "\<forall>p. position_set_contains (Some s1) p \<longleftrightarrow>
         grid_is_valid_position (Some ?g) p \<and> (\<exists>c\<in>set [position_create 1 1]. manhattan p c \<le> sint (1::cint))"
    by blast
  from get_cells_exact[OF d(1,2,4,5) grant_all_granted, of two_cell_heap "[position_create 1 1]"] c v
  obtain s4 where s4:
    "neighborhood_calculator_get_cells grant_all two_cell_heap (Some ?g) 4 = Returns (Some s4, ERROR_NONE)"
    "\<forall>p. position_set_contains (Some s4) p \<longleftrightarrow>
         grid_is_valid_position (Some ?g) p \<and> (\<exists>c\<in>set [position_create 1 1]. manhattan p c \<le> sint (4::cint))"
    by blast
  from get_cells_exact[OF dn(1,2) d(4) dn(4) grant_all_granted, of two_cell_heap] dn(5)
  obtain n4 where n4:
    "neighborhood_calculator_get_cells grant_all two_cell_heap (Some ?n) 4 = Returns (Some n4, ERROR_NONE)"
    "\<forall>p. position_set_contains (Some n4) p \<longleftrightarrow>
         grid_is_valid_position (Some ?n) p
         \<and> sint (height ?n) - 1 + (sint (width ?n) - 1) \<le> sint (4::cint)"
    by blast
  from get_cells_exact[OF dn(1,2,3,4) grant_all_granted, of two_cell_heap] dn(5)
  obtain n3 where n3:
    "neighborhood_calculator_get_cells grant_all two_cell_heap (Some ?n) 3 = Returns (Some n3, ERROR_NONE)"
    "\<forall>p. position_set_contains (Some n3) p \<longleftrightarrow>
         grid_is_valid_position (Some ?n) p
         \<and> sint (height ?n) - 1 + (sint (width ?n) - 1) \<le> sint (3::cint)"
    by blast
  have "position_set_contains (Some s1) (position_create 0 1)"
       "\<not> position_set_contains (Some s1) (position_create 0 0)"
       "position_set_contains (Some s4) (position_create 0 0)"
    using s1(2) s4(2) m by simp_all
  moreover have "position_set_contains (Some n4) (position_create 0 0)"
    using n4(2) m(5) dn(6) by blast
  moreover have "\<not> position_set_contains (Some n3) (position_create 0 0)"
    using n3(2) dn(7) by blast
  ultimately show ?thesis using c s1(1) s4(1) n4(1) n3(1) by blast
qed

text \<open>
  Claim C1 as stated fails where the diameter leaves the range of \<^verbatim>\<open>int\<close>. In a grid of height
  3 and width \<open>2^31 - 1\<close> the sum \<open>2 + (2^31 - 2)\<close> wraps to \<open>-2^31\<close>, the threshold 0 passes
  the saturation test, and with the one positive cell \<open>(0, 0)\<close> the result holds \<open>(0, 1)\<close>, at
  distance 1.
\<close>

theorem saturation_overflow:
  "grid_cells one_cell_heap (one_cell_grid 3 2147483647) = Some [position_create 0 0]
   \<and> grid_is_valid_position (Some (one_cell_grid 3 2147483647)) (position_create 0 0)
   \<and> position_set_contains
        (returned_set (neighborhood_calculator_get_cells grant_all one_cell_heap
                         (Some (one_cell_grid 3 2147483647)) 0))
        (position_create 0 1)
   \<and> manhattan (position_create 0 1) (position_create 0 0) = 1"
proof -
  let ?g = "one_cell_grid 3 2147483647"
  have v: "\<forall>c\<in>set [position_create 0 0]. grid_is_valid_position (Some ?g) c"
    by (rule one_cell_grid_valid) (simp_all add: sless_sint)
  have N: "(0::cint) \<le>s 0" "(height ?g - 1) + (width ?g - 1) \<le>s 0"
    by (simp_all add: one_cell_grid_def sle_sint)
  from get_cells_saturated[OF one_cell_grid_cells _ v N grant_all_granted] obtain s where s:
    "neighborhood_calculator_get_cells grant_all one_cell_heap (Some ?g) 0 = Returns (Some s, ERROR_NONE)"
    "set (positions s) = {p. grid_is_valid_position (Some ?g) p}"
    by auto
  have "grid_is_valid_position (Some ?g) (position_create 0 1)"
    by (simp add: valid_iff one_cell_grid_def position_create_def)
  then have "position_set_contains (Some s) (position_create 0 1)"
    using s(2) by (simp add: position_set_contains_Some)
  moreover have "manhattan (position_create 0 1) (position_create 0 0) = 1"
    by (simp add: manhattan_def position_create_def)
  ultimately show ?thesis using s(1) v one_cell_grid_cells by (simp add: returned_set_def)
qed

section \<open>NeighborhoodCalculator: saturation\<close>

lemma count_saturated:
  assumes wf: "grid_cells hp g = Some cs" "cs \<noteq> []"
      and valid: "\<forall>c\<in>set cs. grid_is_valid_position (Some g) c"
      and N: "sint (height g) - 1 + (sint (width g) - 1) \<le> sint N"
      and granted: "all_granted alloc"
  shows "\<exists>s. neighborhood_calculator_get_cells alloc hp (Some g) N = Returns (Some s, ERROR_NONE)
      \<and> set (positions s) = {p. grid_is_valid_position (Some g) p}
      \<and> int (position_set_size (Some s)) = sint (height g) * sint (width g)
      \<and> neighborhood_calculator_count alloc hp (Some g) N
           = Returns (word_of_int (sint (height g) * sint (width g)), ERROR_NONE)"
proof -
  obtain c where "c \<in> set cs" using wf(2) by (cases cs) auto
  then have d: "0 <s height g" "0 <s width g" using valid valid_dims by blast+
  have "sint N \<le> INT_MAX" using sint_bounds[of N] by (simp add: INT_MAX_def)
  then have diam: "sint (height g) - 1 + (sint (width g) - 1) \<le> INT_MAX" using N by simp
  have N0: "0 \<le>s N" using N d by (simp add: sle_sint sless_sint)
  have Nc: "(height g - 1) + (width g - 1) \<le>s N"
    using N diameter_exact[OF d diam] by (simp add: sle_sint)
  from get_cells_saturated[OF wf valid N0 Nc granted] obtain s where s:
    "neighborhood_calculator_get_cells alloc hp (Some g) N = Returns (Some s, ERROR_NONE)"
    "set (positions s) = {p. grid_is_valid_position (Some g) p}"
    "position_set_size (Some s) = nat (sint (height g)) * nat (sint (width g))"
    by blast
  have sz: "int (position_set_size (Some s)) = sint (height g) * sint (width g)"
    unfolding s(3) using d by (simp add: sless_sint)
  have "(word_of_nat (position_set_size (Some s)) :: cint)
          = word_of_int (int (position_set_size (Some s)))" by simp
  then have "(word_of_nat (position_set_size (Some s)) :: cint)
          = word_of_int (sint (height g) * sint (width g))" unfolding sz .
  then show ?thesis using s(1,2) sz count_of_get_cells[OF s(1)] by simp
qed

text \<open>
  Claim C2, as amended, when every allocation is granted. With a count of at least one, an
  array that holds that many positive cells, all of them within bounds, and a threshold
  \<open>N >= (height - 1) + (width - 1)\<close>, \<^verbatim>\<open>neighborhood_calculator_get_cells\<close> returns
  exactly the cells of the grid, \<open>height * width\<close> of them, and
  \<^verbatim>\<open>neighborhood_calculator_count\<close> returns that number converted to \<^verbatim>\<open>int\<close>: the number itself
  when it is at most \<^verbatim>\<open>INT_MAX\<close>. The test is \<open>>=\<close>: equality with the diameter is enough.
  With a count of 0 the result is the empty set and the count 0, at every threshold. With a
  negative count, for which no positive cell is stored, the result at such a threshold is
  again every cell of the grid.
\<close>

theorem saturation:
  assumes granted: "all_granted alloc"
  shows "(grid_cells hp g = Some cs \<and> cs \<noteq> []
      \<and> (\<forall>c\<in>set cs. grid_is_valid_position (Some g) c)
      \<and> sint (height g) - 1 + (sint (width g) - 1) \<le> sint N \<longrightarrow>
      (\<exists>s. neighborhood_calculator_get_cells alloc hp (Some g) N = Returns (Some s, ERROR_NONE)
         \<and> (\<forall>p. position_set_contains (Some s) p \<longleftrightarrow> grid_is_valid_position (Some g) p)
         \<and> int (position_set_size (Some s)) = sint (height g) * sint (width g))
      \<and> (\<exists>n. neighborhood_calculator_count alloc hp (Some g) N = Returns (n, ERROR_NONE)
            \<and> n = word_of_int (sint (height g) * sint (width g))
            \<and> (sint (height g) * sint (width g) \<le> INT_MAX \<longrightarrow>
                 sint n = sint (height g) * sint (width g))))
   \<and> (positive_cell_count g = 0 \<and> 0 <s height g \<and> 0 <s width g \<and> 0 \<le>s N \<longrightarrow>
        neighborhood_calculator_get_cells alloc hp (Some g) N
          = Returns (position_set_create alloc, ERROR_NONE)
        \<and> position_set_create alloc \<noteq> None
        \<and> position_set_size (position_set_create alloc) = 0
        \<and> neighborhood_calculator_count alloc hp (Some g) N = Returns (0, ERROR_NONE))
   \<and> (sint (positive_cell_count g) < 0 \<and> 0 <s height g \<and> 0 <s width g
      \<and> sint (height g) - 1 + (sint (width g) - 1) \<le> sint N \<longrightarrow>
      (\<exists>s. neighborhood_calculator_get_cells alloc hp (Some g) N = Returns (Some s, ERROR_NONE)
         \<and> (\<forall>p. position_set_contains (Some s) p \<longleftrightarrow> grid_is_valid_position (Some g) p)
         \<and> int (position_set_size (Some s)) = sint (height g) * sint (width g))
      \<and> (\<exists>n. neighborhood_calculator_count alloc hp (Some g) N = Returns (n, ERROR_NONE)
            \<and> n = word_of_int (sint (height g) * sint (width g))
            \<and> (sint (height g) * sint (width g) \<le> INT_MAX \<longrightarrow>
                 sint n = sint (height g) * sint (width g))))"
proof (intro conjI impI)
  assume a: "grid_cells hp g = Some cs \<and> cs \<noteq> []
      \<and> (\<forall>c\<in>set cs. grid_is_valid_position (Some g) c)
      \<and> sint (height g) - 1 + (sint (width g) - 1) \<le> sint N"
  from a count_saturated[of hp g cs N alloc] granted obtain s where s:
    "neighborhood_calculator_get_cells alloc hp (Some g) N = Returns (Some s, ERROR_NONE)"
    "set (positions s) = {p. grid_is_valid_position (Some g) p}"
    "int (position_set_size (Some s)) = sint (height g) * sint (width g)"
    "neighborhood_calculator_count alloc hp (Some g) N
           = Returns (word_of_int (sint (height g) * sint (width g)), ERROR_NONE)"
    by blast
  show "\<exists>s. neighborhood_calculator_get_cells alloc hp (Some g) N = Returns (Some s, ERROR_NONE)
         \<and> (\<forall>p. position_set_contains (Some s) p \<longleftrightarrow> grid_is_valid_position (Some g) p)
         \<and> int (position_set_size (Some s)) = sint (height g) * sint (width g)"
    using s(1,2,3) by (auto simp: position_set_contains_Some)
  have "0 \<le> sint (height g) * sint (width g)" using s(3) by (metis of_nat_0_le_iff)
  then have "sint (height g) * sint (width g) \<le> INT_MAX \<longrightarrow>
       sint (word_of_int (sint (height g) * sint (width g)) :: cint) = sint (height g) * sint (width g)"
    unfolding INT_MAX_def by (intro impI sint_of_int_exact) linarith+
  then show "\<exists>n. neighborhood_calculator_count alloc hp (Some g) N = Returns (n, ERROR_NONE)
            \<and> n = word_of_int (sint (height g) * sint (width g))
            \<and> (sint (height g) * sint (width g) \<le> INT_MAX \<longrightarrow>
                 sint n = sint (height g) * sint (width g))"
    using s(4) by blast
next
  assume a: "positive_cell_count g = 0 \<and> 0 <s height g \<and> 0 <s width g \<and> 0 \<le>s N"
  have cr: "position_set_create alloc = Some \<lparr>positions = [], capacity = INITIAL_CAPACITY\<rparr>"
    using position_set_create_cases[of alloc] granted by blast
  have z: "positive_cell_count g = 0" using a by simp
  have v: "grid_validate_positions hp (Some g) = Returns True"
    using z by (intro validate_no_cells) simp
  show e: "neighborhood_calculator_get_cells alloc hp (Some g) N
             = Returns (position_set_create alloc, ERROR_NONE)"
    using a z v cr
    by (simp add: neighborhood_calculator_get_cells_def sle_sint sless_sint)
  show "position_set_create alloc \<noteq> None" using cr by simp
  show p: "position_set_size (position_set_create alloc) = 0"
    using cr by (simp add: position_set_size_def)
  show "neighborhood_calculator_count alloc hp (Some g) N = Returns (0, ERROR_NONE)"
    using count_of_get_cells[OF e] p cr by simp
next
  assume a: "sint (positive_cell_count g) < 0 \<and> 0 <s height g \<and> 0 <s width g
      \<and> sint (height g) - 1 + (sint (width g) - 1) \<le> sint N"
  then have neg: "sint (positive_cell_count g) < 0" and d: "0 <s height g" "0 <s width g"
    and N: "sint (height g) - 1 + (sint (width g) - 1) \<le> sint N" by simp_all
  have "sint N \<le> INT_MAX" using sint_bounds[of N] by (simp add: INT_MAX_def)
  then have diam: "sint (height g) - 1 + (sint (width g) - 1) \<le> INT_MAX" using N by simp
  have N0: "0 \<le>s N" using N d by (simp add: sle_sint sless_sint)
  from get_cells_no_array[OF neg d N0 diam granted, of hp] N obtain s where s:
    "neighborhood_calculator_get_cells alloc hp (Some g) N = Returns (Some s, ERROR_NONE)"
    "distinct (positions s)"
    "set (positions s) = {p. grid_is_valid_position (Some g) p}"
    by auto
  have "position_set_size (Some s) = nat (sint (height g)) * nat (sint (width g))"
    using size_card[OF s(2)] s(3) card_valid[of g] by simp
  then have sz: "int (position_set_size (Some s)) = sint (height g) * sint (width g)"
    using d by (simp add: sless_sint)
  show "\<exists>s. neighborhood_calculator_get_cells alloc hp (Some g) N = Returns (Some s, ERROR_NONE)
         \<and> (\<forall>p. position_set_contains (Some s) p \<longleftrightarrow> grid_is_valid_position (Some g) p)
         \<and> int (position_set_size (Some s)) = sint (height g) * sint (width g)"
    using s(1,3) sz by (auto simp: position_set_contains_Some)
  have "(word_of_nat (position_set_size (Some s)) :: cint)
          = word_of_int (int (position_set_size (Some s)))" by simp
  then have "(word_of_nat (position_set_size (Some s)) :: cint)
          = word_of_int (sint (height g) * sint (width g))" unfolding sz .
  then have cnt: "neighborhood_calculator_count alloc hp (Some g) N
           = Returns (word_of_int (sint (height g) * sint (width g)), ERROR_NONE)"
    using count_of_get_cells[OF s(1)] by simp
  have "0 \<le> sint (height g) * sint (width g)" using sz by (metis of_nat_0_le_iff)
  then have "sint (height g) * sint (width g) \<le> INT_MAX \<longrightarrow>
       sint (word_of_int (sint (height g) * sint (width g)) :: cint) = sint (height g) * sint (width g)"
    unfolding INT_MAX_def by (intro impI sint_of_int_exact) linarith+
  then show "\<exists>n. neighborhood_calculator_count alloc hp (Some g) N = Returns (n, ERROR_NONE)
            \<and> n = word_of_int (sint (height g) * sint (width g))
            \<and> (sint (height g) * sint (width g) \<le> INT_MAX \<longrightarrow>
                 sint n = sint (height g) * sint (width g))"
    using cnt by blast
qed

theorem saturation_witness:
  "grid_cells two_cell_heap (small_grid 3 3 1) = Some [position_create 1 1]
   \<and> sint (height (small_grid 3 3 1)) - 1 + (sint (width (small_grid 3 3 1)) - 1) \<le> sint (4::cint)
   \<and> neighborhood_calculator_count grant_all two_cell_heap (Some (small_grid 3 3 1)) 4 = Returns (9, ERROR_NONE)
   \<and> positive_cell_count (small_grid 3 3 0) = 0
   \<and> neighborhood_calculator_count grant_all two_cell_heap (Some (small_grid 3 3 0)) 4 = Returns (0, ERROR_NONE)
   \<and> sint (positive_cell_count (small_grid 3 3 (- 1))) < 0
   \<and> neighborhood_calculator_count grant_all two_cell_heap (Some (small_grid 3 3 (- 1))) 4
        = Returns (9, ERROR_NONE)"
proof -
  let ?g = "small_grid 3 3 1" and ?n = "small_grid 3 3 (- 1)"
  have c: "grid_cells two_cell_heap ?g = Some [position_create 1 1]"
          "positive_cell_count (small_grid 3 3 0) = 0"
          "sint (positive_cell_count ?n) < 0"
    by (simp_all add: grid_cells_def two_cell_heap_def small_grid_def)
  have v: "\<forall>c\<in>set [position_create 1 1]. grid_is_valid_position (Some ?g) c"
    by (simp add: valid_iff small_grid_def position_create_def)
  have d: "sint (height ?g) - 1 + (sint (width ?g) - 1) \<le> sint (4::cint)"
    by (simp add: small_grid_def)
  have d0: "0 <s height (small_grid 3 3 0) \<and> 0 <s width (small_grid 3 3 0) \<and> (0::cint) \<le>s 4"
    by (simp add: small_grid_def sle_sint sless_sint)
  have dn: "0 <s height ?n \<and> 0 <s width ?n
            \<and> sint (height ?n) - 1 + (sint (width ?n) - 1) \<le> sint (4::cint)"
    by (simp add: small_grid_def sle_sint sless_sint)
  have hw: "sint (height ?g) * sint (width ?g) = 9" "sint (height ?n) * sint (width ?n) = 9"
    by (simp_all add: small_grid_def)
  from saturation[OF grant_all_granted, of two_cell_heap ?g "[position_create 1 1]" 4] c(1) v d
  have "\<exists>n. neighborhood_calculator_count grant_all two_cell_heap (Some ?g) 4 = Returns (n, ERROR_NONE)
            \<and> n = word_of_int (sint (height ?g) * sint (width ?g))"
    by blast
  then have n9: "neighborhood_calculator_count grant_all two_cell_heap (Some ?g) 4 = Returns (9, ERROR_NONE)"
    unfolding hw by simp
  from saturation[OF grant_all_granted, of two_cell_heap "small_grid 3 3 0" "[]" 4] c(2) d0
  have n0: "neighborhood_calculator_count grant_all two_cell_heap (Some (small_grid 3 3 0)) 4
              = Returns (0, ERROR_NONE)"
    by blast
  from saturation[OF grant_all_granted, of two_cell_heap ?n "[]" 4] c(3) dn
  have "\<exists>n. neighborhood_calculator_count grant_all two_cell_heap (Some ?n) 4 = Returns (n, ERROR_NONE)
            \<and> n = word_of_int (sint (height ?n) * sint (width ?n))"
    by blast
  then have nn: "neighborhood_calculator_count grant_all two_cell_heap (Some ?n) 4
                   = Returns (9, ERROR_NONE)"
    unfolding hw by simp
  show ?thesis using c d n9 n0 nn by blast
qed

text \<open>
  Claim C2 as stated fails for the count of a grid with more than \<^verbatim>\<open>INT_MAX\<close> cells: at
  \<open>65536 * 65536\<close> the threshold 131070 is the diameter, and the count returned is 0.
\<close>

theorem saturation_count_wraps:
  "grid_cells one_cell_heap (one_cell_grid 65536 65536) = Some [position_create 0 0]
   \<and> grid_is_valid_position (Some (one_cell_grid 65536 65536)) (position_create 0 0)
   \<and> sint (height (one_cell_grid 65536 65536)) - 1 + (sint (width (one_cell_grid 65536 65536)) - 1)
        = sint (131070 :: cint)
   \<and> sint (height (one_cell_grid 65536 65536)) * sint (width (one_cell_grid 65536 65536)) = 4294967296
   \<and> neighborhood_calculator_count grant_all one_cell_heap (Some (one_cell_grid 65536 65536)) 131070
        = Returns (0, ERROR_NONE)"
proof -
  let ?g = "one_cell_grid 65536 65536"
  have v: "\<forall>c\<in>set [position_create 0 0]. grid_is_valid_position (Some ?g) c"
    by (rule one_cell_grid_valid) (simp_all add: sless_sint)
  have N: "sint (height ?g) - 1 + (sint (width ?g) - 1) \<le> sint (131070 :: cint)"
    by (simp add: one_cell_grid_def)
  from count_saturated[OF one_cell_grid_cells _ v N grant_all_granted]
  have "neighborhood_calculator_count grant_all one_cell_heap (Some ?g) 131070
           = Returns (word_of_int (sint (height ?g) * sint (width ?g)), ERROR_NONE)"
    by auto
  moreover have "sint (height ?g) * sint (width ?g) = 4294967296" by (simp add: one_cell_grid_def)
  moreover have "(word_of_int 4294967296 :: cint) = 0" by simp
  ultimately show ?thesis using v one_cell_grid_cells by (simp add: one_cell_grid_def)
qed

text \<open>
  A count below zero is stored as given by \<^verbatim>\<open>grid_create\<close>, with or without a buffer. The
  loops over the positive cells then run no round and the test for an empty grid compares
  with 0 only: a grid built from no cell at all returns every cell at a saturating
  threshold and none below it.
\<close>

lemma negative_count_saturates:
  "grid_create grant_all [] 1 1 None (- 1) =
     Returns ([], Some \<lparr>height = 1, width = 1, positive_cells = None, positive_cell_count = - 1\<rparr>)
   \<and> neighborhood_calculator_count grant_all []
        (Some \<lparr>height = 1, width = 1, positive_cells = None, positive_cell_count = - 1\<rparr>) 0
       = Returns (1, ERROR_NONE)
   \<and> grid_create grant_all [] 3 3 None (- 1) =
     Returns ([], Some \<lparr>height = 3, width = 3, positive_cells = None, positive_cell_count = - 1\<rparr>)
   \<and> neighborhood_calculator_count grant_all []
        (Some \<lparr>height = 3, width = 3, positive_cells = None, positive_cell_count = - 1\<rparr>) 4
       = Returns (9, ERROR_NONE)
   \<and> neighborhood_calculator_count grant_all []
        (Some \<lparr>height = 3, width = 3, positive_cells = None, positive_cell_count = - 1\<rparr>) 3
       = Returns (0, ERROR_NONE)"
  by code_simp

text \<open>
  The theorems on the cells returned ask that every allocation is granted. The result of
  \<^verbatim>\<open>position_set_add\<close> is not looked at by \<^verbatim>\<open>neighborhood_calculator_get_cells\<close>: with an
  allocator that grants up to 128 bytes the set cannot grow past its first 16 positions,
  and on a 5 by 5 grid at a saturating threshold 16 of the 25 cells are returned with
  \<^verbatim>\<open>ERROR_NONE\<close>.
\<close>

lemma refused_growth_truncates:
  "neighborhood_calculator_count (grant_up_to 128) two_cell_heap (Some (small_grid 5 5 1)) 8
     = Returns (16, ERROR_NONE)
   \<and> neighborhood_calculator_count grant_all two_cell_heap (Some (small_grid 5 5 1)) 8
     = Returns (25, ERROR_NONE)"
  by code_simp

section \<open>The scenarios of the specification\<close>

text \<open>
  The counts that the specification lists for concrete grids, computed by the model: an
  11 by 11 grid with one cell in the middle, one near an edge, two cells apart and two in
  opposite corners; the 1 by 1 grid; a single row of 21 cells.
\<close>

lemma scenario_center:
  "neighborhood_calculator_count grant_all [[position_create 5 5]] (Some (grid_at 11 11 0 1)) 3
     = Returns (25, ERROR_NONE)"
  by code_simp

lemma scenario_edge:
  "neighborhood_calculator_count grant_all [[position_create 5 1]] (Some (grid_at 11 11 0 1)) 3
     = Returns (21, ERROR_NONE)"
  by code_simp

lemma scenario_two_apart:
  "neighborhood_calculator_count grant_all [[position_create 3 3, position_create 7 7]]
     (Some (grid_at 11 11 0 2)) 2 = Returns (26, ERROR_NONE)"
  by code_simp

lemma scenario_corners:
  "neighborhood_calculator_count grant_all [[position_create 0 0, position_create 10 10]]
     (Some (grid_at 11 11 0 2)) 3 = Returns (20, ERROR_NONE)"
  by code_simp

lemma scenario_single_cell:
  "neighborhood_calculator_count grant_all [[position_create 0 0]] (Some (grid_at 1 1 0 1)) 0
     = Returns (1, ERROR_NONE)"
  by code_simp

lemma scenario_row:
  "neighborhood_calculator_count grant_all [[position_create 0 9]] (Some (grid_at 1 21 0 1)) 3
     = Returns (7, ERROR_NONE)"
  by code_simp

section \<open>NeighborhoodCalculator: two positive cells\<close>

lemma diamonds_far:
  assumes "2 * n < manhattan c1 c2"
  shows "diamond c1 n \<inter> diamond c2 n = {}"
  using assms unfolding diamond_def manhattan_def by auto

lemma area_bounds_diameter:
  assumes "0 <s height g" "0 <s width g" "sint (height g) * sint (width g) \<le> INT_MAX"
  shows "sint (height g) - 1 + (sint (width g) - 1) \<le> INT_MAX"
proof -
  have "0 \<le> (sint (height g) - 1) * (sint (width g) - 1)"
    using assms(1,2) by (simp add: sless_sint)
  then have "sint (height g) - 1 + (sint (width g) - 1) \<le> sint (height g) * sint (width g) - 1"
    by (simp add: algebra_simps)
  then show ?thesis using assms(3) by linarith
qed

lemma clipped_diamonds_meet:
  assumes v: "grid_is_valid_position (Some g) c1" "grid_is_valid_position (Some g) c2"
      and q: "(r, k) \<in> diamond c1 n \<inter> diamond c2 n"
  shows "\<exists>p. grid_is_valid_position (Some g) p \<and> manhattan p c1 \<le> n \<and> manhattan p c2 \<le> n"
proof -
  let ?r = "max 0 (min (sint (height g) - 1) r)" and ?k = "max 0 (min (sint (width g) - 1) k)"
  let ?p = "\<lparr>row = (word_of_int ?r :: cint), column = (word_of_int ?k :: cint)\<rparr>"
  have hb: "sint (height g) \<le> 2147483648" "sint (width g) \<le> 2147483648"
    using sint_bounds[of "height g"] sint_bounds[of "width g"] by simp_all
  have d: "0 < sint (height g)" "0 < sint (width g)"
    using valid_dims[OF v(1)] by (simp_all add: sless_sint)
  have rb: "0 \<le> ?r" "?r < sint (height g)" and kb: "0 \<le> ?k" "?k < sint (width g)"
    using d by auto
  have sr: "sint (row ?p) = ?r" using rb hb by (simp add: sint_of_int_exact)
  have sk: "sint (column ?p) = ?k" using kb hb by (simp add: sint_of_int_exact)
  have pv: "grid_is_valid_position (Some g) ?p"
    unfolding valid_iff sr sk using rb kb by simp
  have c: "0 \<le> sint (row c1)" "sint (row c1) < sint (height g)"
          "0 \<le> sint (column c1)" "sint (column c1) < sint (width g)"
          "0 \<le> sint (row c2)" "sint (row c2) < sint (height g)"
          "0 \<le> sint (column c2)" "sint (column c2) < sint (width g)"
    using v by (simp_all add: valid_iff)
  have q1: "\<bar>r - sint (row c1)\<bar> + \<bar>k - sint (column c1)\<bar> \<le> n"
   and q2: "\<bar>r - sint (row c2)\<bar> + \<bar>k - sint (column c2)\<bar> \<le> n"
    using q by (simp_all add: diamond_def)
  have "\<bar>?r - sint (row c1)\<bar> \<le> \<bar>r - sint (row c1)\<bar>" using c by linarith
  moreover have "\<bar>?k - sint (column c1)\<bar> \<le> \<bar>k - sint (column c1)\<bar>" using c by linarith
  ultimately have m1: "manhattan ?p c1 \<le> n" unfolding manhattan_def sr sk using q1 by linarith
  have "\<bar>?r - sint (row c2)\<bar> \<le> \<bar>r - sint (row c2)\<bar>" using c by linarith
  moreover have "\<bar>?k - sint (column c2)\<bar> \<le> \<bar>k - sint (column c2)\<bar>" using c by linarith
  ultimately have m2: "manhattan ?p c2 \<le> n" unfolding manhattan_def sr sk using q2 by linarith
  show ?thesis using pv m1 m2 by blast
qed

lemma count_card:
  assumes wf: "grid_cells hp g = Some cs"
      and valid: "\<forall>c\<in>set cs. grid_is_valid_position (Some g) c"
      and dims: "0 <s height g" "0 <s width g"
      and N: "0 \<le>s N"
      and area: "sint (height g) * sint (width g) \<le> INT_MAX"
      and granted: "all_granted alloc"
  shows "\<exists>n. neighborhood_calculator_count alloc hp (Some g) N = Returns (n, ERROR_NONE)
      \<and> sint n = int (card {p. grid_is_valid_position (Some g) p
                                  \<and> (\<exists>c\<in>set cs. manhattan p c \<le> sint N)})"
proof -
  note diam = area_bounds_diameter[OF dims area]
  from get_cells_union[OF wf valid dims N diam granted] obtain s where s:
    "neighborhood_calculator_get_cells alloc hp (Some g) N = Returns (Some s, ERROR_NONE)"
    "distinct (positions s)"
    "set (positions s) =
           {p. grid_is_valid_position (Some g) p \<and> (\<exists>c\<in>set cs. manhattan p c \<le> sint N)}"
    by blast
  have sub: "set (positions s) \<subseteq> {p. grid_is_valid_position (Some g) p}" using s(3) by auto
  have "int (position_set_size (Some s)) \<le> INT_MAX"
    using result_size_bound[OF s(2) sub dims] area by linarith
  then have "sint (word_of_nat (position_set_size (Some s)) :: cint) = int (position_set_size (Some s))"
    by (rule sint_of_nat_exact)
  then show ?thesis
    using count_of_get_cells[OF s(1)] size_card[OF s(2)] s(3) by simp
qed

lemma finite_valid: "finite {p. grid_is_valid_position (Some g) p}"
proof (cases "0 < nat (sint (height g)) * nat (sint (width g))")
  case True
  then show ?thesis using card_valid[of g] by (intro card_ge_0_finite) simp
next
  case False
  then have "{p. grid_is_valid_position (Some g) p} = {}" by (auto simp: valid_iff)
  then show ?thesis by simp
qed

text \<open>
  Claim C7, as amended. Take a grid of at most \<^verbatim>\<open>INT_MAX\<close> cells, two positive cells \<open>c1\<close> and
  \<open>c2\<close> within its bounds and a threshold \<open>N >= 0\<close>, and count on the grid with both cells,
  with \<open>c1\<close> alone and with \<open>c2\<close> alone, every allocation being granted. If the diamonds of radius \<open>N\<close> around \<open>c1\<close> and \<open>c2\<close>
  have no point in common, the first count is the sum of the other two; if they have one,
  it is strictly less.
\<close>

theorem two_cells_additivity:
  assumes cells: "grid_cells hp12 g12 = Some [c1, c2]" "grid_cells hp1 g1 = Some [c1]"
                 "grid_cells hp2 g2 = Some [c2]"
      and same: "height g1 = height g12" "width g1 = width g12"
                "height g2 = height g12" "width g2 = width g12"
      and valid: "grid_is_valid_position (Some g12) c1" "grid_is_valid_position (Some g12) c2"
      and N: "0 \<le>s N"
      and area: "sint (height g12) * sint (width g12) \<le> INT_MAX"
      and granted: "all_granted alloc"
  shows "\<exists>n12 n1 n2.
           neighborhood_calculator_count alloc hp12 (Some g12) N = Returns (n12, ERROR_NONE)
         \<and> neighborhood_calculator_count alloc hp1 (Some g1) N = Returns (n1, ERROR_NONE)
         \<and> neighborhood_calculator_count alloc hp2 (Some g2) N = Returns (n2, ERROR_NONE)
         \<and> (diamond c1 (sint N) \<inter> diamond c2 (sint N) = {} \<longrightarrow> sint n12 = sint n1 + sint n2)
         \<and> (diamond c1 (sint N) \<inter> diamond c2 (sint N) \<noteq> {} \<longrightarrow> sint n12 < sint n1 + sint n2)"
proof -
  note dims = valid_dims[OF valid(1)]
  have v1: "grid_is_valid_position (Some g1) = grid_is_valid_position (Some g12)"
   and v2: "grid_is_valid_position (Some g2) = grid_is_valid_position (Some g12)"
    using same by (auto simp: valid_iff fun_eq_iff)
  let ?V = "grid_is_valid_position (Some g12)"
  let ?S1 = "{p. ?V p \<and> manhattan p c1 \<le> sint N}"
  let ?S2 = "{p. ?V p \<and> manhattan p c2 \<le> sint N}"
  have e12: "{p. ?V p \<and> (\<exists>c\<in>set [c1, c2]. manhattan p c \<le> sint N)} = ?S1 \<union> ?S2"
   and e1: "{p. ?V p \<and> (\<exists>c\<in>set [c1]. manhattan p c \<le> sint N)} = ?S1"
   and e2: "{p. ?V p \<and> (\<exists>c\<in>set [c2]. manhattan p c \<le> sint N)} = ?S2"
    by auto
  from count_card[OF cells(1) _ dims N area granted] valid obtain n12 where n12:
    "neighborhood_calculator_count alloc hp12 (Some g12) N = Returns (n12, ERROR_NONE)"
    "sint n12 = int (card (?S1 \<union> ?S2))" unfolding e12 by auto
  from count_card[OF cells(2), of N alloc] valid dims N area same granted obtain n1 where n1:
    "neighborhood_calculator_count alloc hp1 (Some g1) N = Returns (n1, ERROR_NONE)"
    "sint n1 = int (card ?S1)" unfolding v1 e1 by auto
  from count_card[OF cells(3), of N alloc] valid dims N area same granted obtain n2 where n2:
    "neighborhood_calculator_count alloc hp2 (Some g2) N = Returns (n2, ERROR_NONE)"
    "sint n2 = int (card ?S2)" unfolding v2 e2 by auto
  have fin: "finite ?S1" "finite ?S2"
    using finite_valid[of g12] by (auto intro: finite_subset[OF _ finite_valid[of g12]])
  have cu: "card (?S1 \<union> ?S2) + card (?S1 \<inter> ?S2) = card ?S1 + card ?S2"
    by (rule card_Un_Int[OF fin, symmetric])
  have meet: "?S1 \<inter> ?S2 = {} \<longleftrightarrow> diamond c1 (sint N) \<inter> diamond c2 (sint N) = {}"
  proof
    assume e: "?S1 \<inter> ?S2 = {}"
    show "diamond c1 (sint N) \<inter> diamond c2 (sint N) = {}"
    proof (rule ccontr)
      assume "diamond c1 (sint N) \<inter> diamond c2 (sint N) \<noteq> {}"
      then obtain r k where "(r, k) \<in> diamond c1 (sint N) \<inter> diamond c2 (sint N)" by auto
      from clipped_diamonds_meet[OF valid this] obtain p where
        "?V p" "manhattan p c1 \<le> sint N" "manhattan p c2 \<le> sint N" by blast
      then have "p \<in> ?S1 \<inter> ?S2" by simp
      with e show False by blast
    qed
  next
    assume e: "diamond c1 (sint N) \<inter> diamond c2 (sint N) = {}"
    show "?S1 \<inter> ?S2 = {}"
    proof (rule ccontr)
      assume "?S1 \<inter> ?S2 \<noteq> {}"
      then obtain p where "manhattan p c1 \<le> sint N" "manhattan p c2 \<le> sint N" by auto
      then have "(sint (row p), sint (column p)) \<in> diamond c1 (sint N) \<inter> diamond c2 (sint N)"
        by (simp add: diamond_def manhattan_def)
      with e show False by blast
    qed
  qed
  have a: "diamond c1 (sint N) \<inter> diamond c2 (sint N) = {} \<longrightarrow> sint n12 = sint n1 + sint n2"
    using meet cu n12(2) n1(2) n2(2) by auto
  have b: "diamond c1 (sint N) \<inter> diamond c2 (sint N) \<noteq> {} \<longrightarrow> sint n12 < sint n1 + sint n2"
  proof
    assume "diamond c1 (sint N) \<inter> diamond c2 (sint N) \<noteq> {}"
    then have "?S1 \<inter> ?S2 \<noteq> {}" using meet by simp
    then have "0 < card (?S1 \<inter> ?S2)" using fin by (simp add: card_gt_0_iff)
    then show "sint n12 < sint n1 + sint n2" using cu n12(2) n1(2) n2(2) by linarith
  qed
  show ?thesis using n12(1) n1(1) n2(1) a b by blast
qed

lemma pair_heap_cells:
  "grid_cells (pair_heap c1 c2) (grid_at h w 0 2) = Some [c1, c2]"
  "grid_cells (pair_heap c1 c2) (grid_at h w 0 1) = Some [c1]"
  "grid_cells (pair_heap c1 c2) (grid_at h w 1 1) = Some [c2]"
  by (simp_all add: grid_cells_def pair_heap_def grid_at_def)

theorem two_cells_additivity_witness:
  "grid_is_valid_position (Some (grid_at 11 11 0 2)) (position_create 3 3)
   \<and> grid_is_valid_position (Some (grid_at 11 11 0 2)) (position_create 7 7)
   \<and> diamond (position_create 3 3) (sint (2::cint)) \<inter> diamond (position_create 7 7) (sint (2::cint)) = {}
   \<and> (\<exists>n12 n1 n2.
         neighborhood_calculator_count grant_all (pair_heap (position_create 3 3) (position_create 7 7))
            (Some (grid_at 11 11 0 2)) 2 = Returns (n12, ERROR_NONE)
       \<and> neighborhood_calculator_count grant_all (pair_heap (position_create 3 3) (position_create 7 7))
            (Some (grid_at 11 11 0 1)) 2 = Returns (n1, ERROR_NONE)
       \<and> neighborhood_calculator_count grant_all (pair_heap (position_create 3 3) (position_create 7 7))
            (Some (grid_at 11 11 1 1)) 2 = Returns (n2, ERROR_NONE)
       \<and> sint n12 = sint n1 + sint n2)
   \<and> diamond (position_create 3 3) (sint (4::cint)) \<inter> diamond (position_create 7 7) (sint (4::cint)) \<noteq> {}
   \<and> (\<exists>n12 n1 n2.
         neighborhood_calculator_count grant_all (pair_heap (position_create 3 3) (position_create 7 7))
            (Some (grid_at 11 11 0 2)) 4 = Returns (n12, ERROR_NONE)
       \<and> neighborhood_calculator_count grant_all (pair_heap (position_create 3 3) (position_create 7 7))
            (Some (grid_at 11 11 0 1)) 4 = Returns (n1, ERROR_NONE)
       \<and> neighborhood_calculator_count grant_all (pair_heap (position_create 3 3) (position_create 7 7))
            (Some (grid_at 11 11 1 1)) 4 = Returns (n2, ERROR_NONE)
       \<and> sint n12 < sint n1 + sint n2)"
proof -
  let ?c1 = "position_create 3 3" and ?c2 = "position_create 7 7"
  let ?hp = "pair_heap ?c1 ?c2"
  have v: "grid_is_valid_position (Some (grid_at 11 11 0 2)) ?c1"
          "grid_is_valid_position (Some (grid_at 11 11 0 2)) ?c2"
    by (simp_all add: valid_iff grid_at_def position_create_def)
  have same: "height (grid_at 11 11 0 1) = height (grid_at 11 11 0 2)"
             "width (grid_at 11 11 0 1) = width (grid_at 11 11 0 2)"
             "height (grid_at 11 11 1 1) = height (grid_at 11 11 0 2)"
             "width (grid_at 11 11 1 1) = width (grid_at 11 11 0 2)"
    by (simp_all add: grid_at_def)
  have N: "(0::cint) \<le>s 2" "(0::cint) \<le>s 4" by (simp_all add: sle_sint)
  have area: "sint (height (grid_at 11 11 0 2)) * sint (width (grid_at 11 11 0 2)) \<le> INT_MAX"
    by (simp add: grid_at_def INT_MAX_def)
  have far: "diamond ?c1 (sint (2::cint)) \<inter> diamond ?c2 (sint (2::cint)) = {}"
    by (rule diamonds_far) (simp add: manhattan_def position_create_def)
  have "(5, 5) \<in> diamond ?c1 (sint (4::cint)) \<inter> diamond ?c2 (sint (4::cint))"
    by (simp add: diamond_def position_create_def)
  then have near: "diamond ?c1 (sint (4::cint)) \<inter> diamond ?c2 (sint (4::cint)) \<noteq> {}" by blast
  note t2 = two_cells_additivity[OF pair_heap_cells same v N(1) area grant_all_granted]
  note t4 = two_cells_additivity[OF pair_heap_cells same v N(2) area grant_all_granted]
  from t2 far have a: "\<exists>n12 n1 n2.
         neighborhood_calculator_count grant_all ?hp (Some (grid_at 11 11 0 2)) 2 = Returns (n12, ERROR_NONE)
       \<and> neighborhood_calculator_count grant_all ?hp (Some (grid_at 11 11 0 1)) 2 = Returns (n1, ERROR_NONE)
       \<and> neighborhood_calculator_count grant_all ?hp (Some (grid_at 11 11 1 1)) 2 = Returns (n2, ERROR_NONE)
       \<and> sint n12 = sint n1 + sint n2" by blast
  from t4 near have b: "\<exists>n12 n1 n2.
         neighborhood_calculator_count grant_all ?hp (Some (grid_at 11 11 0 2)) 4 = Returns (n12, ERROR_NONE)
       \<and> neighborhood_calculator_count grant_all ?hp (Some (grid_at 11 11 0 1)) 4 = Returns (n1, ERROR_NONE)
       \<and> neighborhood_calculator_count grant_all ?hp (Some (grid_at 11 11 1 1)) 4 = Returns (n2, ERROR_NONE)
       \<and> sint n12 < sint n1 + sint n2" by blast
  show ?thesis using v far near a b by blast
qed

text \<open>
  Claim C7 as stated fails on a grid of \<open>65536 * 65536\<close> cells at threshold 131070: the
  diamonds around \<open>(0, 0)\<close> and \<open>(0, 1)\<close> both hold \<open>(0, 0)\<close>, and the three counts are 0, so
  the count for both cells is not less than the sum.
\<close>

theorem two_cells_overlap_wraps:
  "grid_is_valid_position (Some (grid_at 65536 65536 0 2)) (position_create 0 0)
   \<and> grid_is_valid_position (Some (grid_at 65536 65536 0 2)) (position_create 0 1)
   \<and> (0, 0) \<in> diamond (position_create 0 0) (sint (131070::cint))
                \<inter> diamond (position_create 0 1) (sint (131070::cint))
   \<and> neighborhood_calculator_count grant_all (pair_heap (position_create 0 0) (position_create 0 1))
        (Some (grid_at 65536 65536 0 2)) 131070 = Returns (0, ERROR_NONE)
   \<and> neighborhood_calculator_count grant_all (pair_heap (position_create 0 0) (position_create 0 1))
        (Some (grid_at 65536 65536 0 1)) 131070 = Returns (0, ERROR_NONE)
   \<and> neighborhood_calculator_count grant_all (pair_heap (position_create 0 0) (position_create 0 1))
        (Some (grid_at 65536 65536 1 1)) 131070 = Returns (0, ERROR_NONE)"
proof -
  let ?c1 = "position_create 0 0" and ?c2 = "position_create 0 1"
  let ?hp = "pair_heap ?c1 ?c2"
  have v: "grid_is_valid_position (Some (grid_at 65536 65536 a n)) ?c1"
          "grid_is_valid_position (Some (grid_at 65536 65536 a n)) ?c2" for a n
    by (simp_all add: valid_iff grid_at_def position_create_def)
  have N: "sint (height (grid_at 65536 65536 a n)) - 1 + (sint (width (grid_at 65536 65536 a n)) - 1)
             \<le> sint (131070 :: cint)" for a n
    by (simp add: grid_at_def)
  have hw: "(word_of_int (sint (height (grid_at 65536 65536 a n))
               * sint (width (grid_at 65536 65536 a n))) :: cint) = 0" for a n
    by (simp add: grid_at_def)
  have d: "(0, 0) \<in> diamond ?c1 (sint (131070::cint)) \<inter> diamond ?c2 (sint (131070::cint))"
    by (simp add: diamond_def position_create_def)
  from count_saturated[OF pair_heap_cells(1)[of ?c1 ?c2 65536 65536] _ _ N grant_all_granted] v
  have a: "neighborhood_calculator_count grant_all ?hp (Some (grid_at 65536 65536 0 2)) 131070
             = Returns (0, ERROR_NONE)"
    unfolding hw by auto
  from count_saturated[OF pair_heap_cells(2)[of ?c1 ?c2 65536 65536] _ _ N grant_all_granted] v
  have b: "neighborhood_calculator_count grant_all ?hp (Some (grid_at 65536 65536 0 1)) 131070
             = Returns (0, ERROR_NONE)"
    unfolding hw by auto
  from count_saturated[OF pair_heap_cells(3)[of ?c1 ?c2 65536 65536] _ _ N grant_all_granted] v
  have c: "neighborhood_calculator_count grant_all ?hp (Some (grid_at 65536 65536 1 1)) 131070
             = Returns (0, ERROR_NONE)"
    unfolding hw by auto
  show ?thesis using v d a b c by blast
qed

end
